theory Spec2Isabelle
  imports Complex_Main "HOL-Library.Sublist"
begin

section \<open>Data model\<close>

text \<open>
  A work record is the JavaScript object built by \<open>parseHistoryItem\<close> and
  \<open>parseBookmarkItem\<close> in \<open>scraper.js\<close> and later extended by
  \<open>Object.assign(item, metadata)\<close>. A property that may hold \<open>null\<close> (or be
  missing, or hold \<open>NaN\<close> after a failed \<open>parseInt\<close>) is an \<open>option\<close>; the flag
  \<open>isBookmark\<close> is only ever written as \<open>true\<close>, so a missing flag is \<open>False\<close>.
  The fields \<open>source\<close> and \<open>isBookmarked\<close> are never written by the scraper; they
  are the properties that the bookmark statistics of \<open>analyze\<close> read.
\<close>

record work =
  workId :: string
  title :: string
  authors :: "string list"
  fandoms :: "string list"
  visitCount :: "int option"
  lastVisited :: "string option"
  warnings :: "string list"
  relationships :: "string list"
  characters :: "string list"
  freeformTags :: "string list"
  wordCount :: "int option"
  isBookmark :: bool
  rating :: "string option"
  kudos :: "int option"
  bookmarks :: "int option"
  chapters :: "string option"
  complete :: "bool option"
  datePublished :: "string option"
  hits :: "int option"
  dateUpdated :: "string option"
  source :: "string option"
  isBookmarked :: bool

section \<open>Filter stage (\<open>applyFilters\<close>)\<close>

record filters =
  wordCountMin :: int
  wordCountMax :: int
  ratings :: "string list"

text \<open>\<open>work.wordCount || 0\<close>: \<open>null\<close>, \<open>NaN\<close> and \<open>0\<close> all give \<open>0\<close>.\<close>

definition wordCount_or_0 :: "work \<Rightarrow> int" where
  "wordCount_or_0 w = (case wordCount w of None \<Rightarrow> 0 | Some n \<Rightarrow> n)"

text \<open>\<open>work.rating || 'Unknown'\<close>: \<open>null\<close> and the empty string give \<open>'Unknown'\<close>.\<close>

definition rating_or_Unknown :: "work \<Rightarrow> string" where
  "rating_or_Unknown w =
     (case rating w of None \<Rightarrow> ''Unknown'' | Some r \<Rightarrow> if r = [] then ''Unknown'' else r)"

text \<open>\<open>Array.prototype.includes\<close> on an array of strings.\<close>

fun array_includes :: "'a list \<Rightarrow> 'a \<Rightarrow> bool" where
  "array_includes [] x = False"
| "array_includes (y # ys) x = (if y = x then True else array_includes ys x)"

text \<open>The callback of \<open>works.filter\<close> in \<open>applyFilters\<close>, with its two early returns.\<close>

definition applyFilters_keep :: "filters \<Rightarrow> work \<Rightarrow> bool" where
  "applyFilters_keep f w =
     (let wc = wordCount_or_0 w in
      if wc < wordCountMin f \<or> wc > wordCountMax f then False
      else let r = rating_or_Unknown w in
        if \<not> array_includes (ratings f) r then False
        else True)"

definition applyFilters :: "work list \<Rightarrow> filters \<Rightarrow> work list" where
  "applyFilters works f = filter (applyFilters_keep f) works"

section \<open>Merging history and bookmarks (\<open>mergeItems\<close>)\<close>

text \<open>
  A JavaScript \<open>Map\<close> keeps its entries in insertion order, and \<open>set\<close> on a key that
  is present replaces the value where the key stands. It is an association list with
  distinct keys.
\<close>

fun Map_set :: "('k \<times> 'v) list \<Rightarrow> 'k \<Rightarrow> 'v \<Rightarrow> ('k \<times> 'v) list" where
  "Map_set [] k v = [(k, v)]"
| "Map_set ((k', v') # m) k v =
     (if k' = k then (k, v) # m else (k', v') # Map_set m k v)"

definition Map_get :: "('k \<times> 'v) list \<Rightarrow> 'k \<Rightarrow> 'v option" where
  "Map_get m k = map_of m k"

definition Map_has :: "('k \<times> 'v) list \<Rightarrow> 'k \<Rightarrow> bool" where
  "Map_has m k = (map_of m k \<noteq> None)"

definition Map_values :: "('k \<times> 'v) list \<Rightarrow> 'v list" where
  "Map_values m = map snd m"

text \<open>
  The first \<open>forEach\<close> of \<open>mergeItems\<close>. The objects are shared by reference; the
  assignment \<open>existing.isBookmark = true\<close> of the second \<open>forEach\<close> changes the object
  that the map holds, which is the replacement of the value under its key.
\<close>

definition merge_history :: "work list \<Rightarrow> (string \<times> work) list" where
  "merge_history historyItems =
     foldl (\<lambda>seen item. Map_set seen (workId item) item) [] historyItems"

definition merge_bookmark :: "(string \<times> work) list \<Rightarrow> work \<Rightarrow> (string \<times> work) list" where
  "merge_bookmark seen item =
     (if Map_has seen (workId item) then
        (case Map_get seen (workId item) of
           Some existing \<Rightarrow> Map_set seen (workId item) (existing\<lparr>isBookmark := True\<rparr>)
         | None \<Rightarrow> seen)
      else Map_set seen (workId item) item)"

definition mergeItems :: "work list \<Rightarrow> work list \<Rightarrow> work list" where
  "mergeItems historyItems bookmarkItems =
     Map_values (foldl merge_bookmark (merge_history historyItems) bookmarkItems)"


text \<open>The invariant of the map \<open>seen\<close>: distinct keys, each value filed under its own
  work id.\<close>

definition keyed :: "(string \<times> work) list \<Rightarrow> bool" where
  "keyed m \<longleftrightarrow> distinct (map fst m) \<and> (\<forall>(k, v) \<in> set m. workId v = k)"

section \<open>Page parser results\<close>

text \<open>
  The DOM queries of \<open>parseHistoryItem\<close> and \<open>parseBookmarkItem\<close> belong to the
  browser. A \<open>blurb\<close> holds what they return for one listing row: \<open>b_workId\<close> is the
  group matched by \<open>/\/works\/(\d+)/\<close> in the title link (absent when there is no
  title link or no match), \<open>b_visited\<close> says that the row has the element
  \<open>.user-status .visited\<close>, \<open>b_visits\<close> is the number matched in its "Visited N times"
  text, \<open>b_datetime\<close> the text of the row's date element (\<open>.user-status .datetime\<close> of
  a history row, \<open>.user .datetime\<close> of a bookmark row), \<open>b_words\<close> the result of
  \<open>parseInt\<close> on \<open>dd.words\<close>. A history row is asked for its visit count and its
  date only when it has the visited element.
\<close>

record blurb =
  b_workId :: "string option"
  b_title :: string
  b_authors :: "string list"
  b_fandoms :: "string list"
  b_visited :: bool
  b_visits :: "int option"
  b_datetime :: "string option"
  b_warnings :: "string list"
  b_relationships :: "string list"
  b_characters :: "string list"
  b_freeforms :: "string list"
  b_words :: "int option"

definition parseHistoryItem :: "blurb \<Rightarrow> work option" where
  "parseHistoryItem item =
     (case b_workId item of
        None \<Rightarrow> None
      | Some wid \<Rightarrow> Some
          \<lparr> workId = wid, title = b_title item, authors = b_authors item,
            fandoms = b_fandoms item,
            visitCount =
              Some (if b_visited item
                    then (case b_visits item of None \<Rightarrow> 1 | Some n \<Rightarrow> n) else 1),
            lastVisited = (if b_visited item then b_datetime item else None),
            warnings = b_warnings item, relationships = b_relationships item,
            characters = b_characters item, freeformTags = b_freeforms item,
            wordCount = b_words item, isBookmark = False,
            rating = None, kudos = None, bookmarks = None, chapters = None,
            complete = None, datePublished = None, hits = None, dateUpdated = None,
            source = None, isBookmarked = False \<rparr>)"

definition parseBookmarkItem :: "blurb \<Rightarrow> work option" where
  "parseBookmarkItem item =
     (case b_workId item of
        None \<Rightarrow> None
      | Some wid \<Rightarrow> Some
          \<lparr> workId = wid, title = b_title item, authors = b_authors item,
            fandoms = b_fandoms item,
            visitCount = Some 1,
            lastVisited = b_datetime item,
            warnings = b_warnings item, relationships = b_relationships item,
            characters = b_characters item, freeformTags = b_freeforms item,
            wordCount = b_words item, isBookmark = True,
            rating = None, kudos = None, bookmarks = None, chapters = None,
            complete = None, datePublished = None, hits = None, dateUpdated = None,
            source = None, isBookmarked = False \<rparr>)"

text \<open>The \<open>forEach\<close> of \<open>scrapeHistoryPage\<close> and \<open>scrapeBookmarkPage\<close>: rows for
  which the parser returns \<open>null\<close> are not pushed.\<close>

fun push_parsed :: "(blurb \<Rightarrow> work option) \<Rightarrow> blurb list \<Rightarrow> work list" where
  "push_parsed parse [] = []"
| "push_parsed parse (item # items) =
     (case parse item of None \<Rightarrow> push_parsed parse items
      | Some parsed \<Rightarrow> parsed # push_parsed parse items)"

text \<open>The object returned by \<open>fetchWorkMetadata\<close>.\<close>

record metadata =
  m_workId :: string
  m_rating :: string
  m_warnings :: "string list"
  m_fandoms :: "string list"
  m_relationships :: "string list"
  m_characters :: "string list"
  m_freeformTags :: "string list"
  m_wordCount :: "int option"
  m_chapters :: "string option"
  m_kudos :: "int option"
  m_bookmarks :: "int option"
  m_hits :: "int option"
  m_datePublished :: "string option"
  m_dateUpdated :: "string option"
  m_complete :: "bool option"

text \<open>\<open>Object.assign(item, metadata)\<close> copies every property of the metadata, the
  \<open>null\<close> ones too.\<close>

definition Object_assign :: "work \<Rightarrow> metadata \<Rightarrow> work" where
  "Object_assign item m =
     item\<lparr> workId := m_workId m, rating := Some (m_rating m), warnings := m_warnings m,
           fandoms := m_fandoms m, relationships := m_relationships m,
           characters := m_characters m, freeformTags := m_freeformTags m,
           wordCount := m_wordCount m, chapters := m_chapters m, kudos := m_kudos m,
           bookmarks := m_bookmarks m, hits := m_hits m,
           datePublished := m_datePublished m, dateUpdated := m_dateUpdated m,
           complete := m_complete m \<rparr>"

section \<open>The harvester's environment and state\<close>

record response =
  success :: bool
  html :: string
  error :: string

text \<open>
  Everything the scraper receives from outside. A suspension is one \<open>await\<close> of a fetch
  or of a delay; suspensions are numbered from the start of the run. \<open>fetchUrl\<close> answers
  the fetch issued at a suspension. \<open>cancelRequested\<close> is a variable of the module, and
  \<open>requestCancel\<close> and \<open>resetCancel\<close> are exported: \<open>flagCalls n\<close> lists, in their
  order, the calls that others make while suspension \<open>n\<close> is pending (the user's cancel
  button calls \<open>requestCancel()\<close>; a run started meanwhile calls \<open>resetCancel()\<close>).
  The remaining fields are the DOM queries on
  a fetched page: the \<open>parseInt\<close> of each link text of \<open>ol.pagination\<close> (\<open>None\<close> for
  \<open>NaN\<close>; no list when the page has no pagination), the listing rows, and the fields
  read from a work page (\<open>Inl\<close> when reading them throws).
\<close>

datatype flag_call = RequestCancel | ResetCancel

record env =
  fetchUrl :: "nat \<Rightarrow> string \<Rightarrow> response"
  flagCalls :: "nat \<Rightarrow> flag_call list"
  paginationLinks :: "string \<Rightarrow> int option list option"
  readingBlurbs :: "string \<Rightarrow> blurb list"
  bookmarkBlurbs :: "string \<Rightarrow> blurb list"
  workPage :: "string \<Rightarrow> string \<Rightarrow> string + metadata"
  Date_parse :: "string \<Rightarrow> int option"
  oneYearAgo :: int

text \<open>A progress event. \<open>percent\<close> is a JavaScript number; it is kept as the exact
  rational that the arithmetic of the source denotes.\<close>

record progress_event =
  phase :: string
  message :: string
  detail :: "string option"
  percent :: rat
  failedCount :: "nat option"

datatype event = Fetch string | Delay nat | Progress progress_event

record hstate =
  tick :: nat
  cancelRequested :: bool
  trace :: "event list"

text \<open>An \<open>async\<close> function takes the state and returns a thrown error message (\<open>Inl\<close>)
  or a value, with the new state.\<close>

type_synonym 'a async = "hstate \<Rightarrow> (string + 'a) \<times> hstate"

definition AO3_BASE_URL :: string where
  "AO3_BASE_URL = ''https://archiveofourown.org''"

definition RATE_LIMIT_MS :: nat where
  "RATE_LIMIT_MS = 5000"

text \<open>The effect of a call of \<open>requestCancel()\<close> or \<open>resetCancel()\<close> on the flag.\<close>

fun apply_call :: "bool \<Rightarrow> flag_call \<Rightarrow> bool" where
  "apply_call flag RequestCancel = True"
| "apply_call flag ResetCancel = False"

text \<open>\<open>cancelDuring e n\<close>: \<open>requestCancel()\<close> is called while suspension \<open>n\<close> is
  pending. \<open>isolated e\<close>: nobody but the run itself calls \<open>resetCancel()\<close>.\<close>

definition cancelDuring :: "env \<Rightarrow> nat \<Rightarrow> bool" where
  "cancelDuring e n = (RequestCancel \<in> set (flagCalls e n))"

definition isolated :: "env \<Rightarrow> bool" where
  "isolated e = (\<forall>n. ResetCancel \<notin> set (flagCalls e n))"

text \<open>A suspension: the pending calls act on the flag, the count of suspensions goes
  up.\<close>

definition suspend :: "env \<Rightarrow> hstate \<Rightarrow> hstate" where
  "suspend e s =
     s\<lparr> tick := Suc (tick s),
        cancelRequested := foldl apply_call (cancelRequested s) (flagCalls e (tick s)) \<rparr>"

definition delay :: "env \<Rightarrow> nat \<Rightarrow> hstate \<Rightarrow> hstate" where
  "delay e ms s = suspend e (s\<lparr>trace := trace s @ [Delay ms]\<rparr>)"

definition electronAPI_fetchUrl :: "env \<Rightarrow> string \<Rightarrow> hstate \<Rightarrow> response \<times> hstate" where
  "electronAPI_fetchUrl e url s =
     (fetchUrl e (tick s) url, suspend e (s\<lparr>trace := trace s @ [Fetch url]\<rparr>))"

definition onProgress :: "progress_event \<Rightarrow> hstate \<Rightarrow> hstate" where
  "onProgress p s = s\<lparr>trace := trace s @ [Progress p]\<rparr>"

definition resetCancel :: "hstate \<Rightarrow> hstate" where
  "resetCancel s = s\<lparr>cancelRequested := False\<rparr>"

definition isCancelled :: "hstate \<Rightarrow> bool" where
  "isCancelled s = cancelRequested s"

text \<open>Decimal printing of a number inside a template literal.\<close>

function show_nat :: "nat \<Rightarrow> string" where
  "show_nat n =
     (if n < 10 then [''0123456789'' ! n]
      else show_nat (n div 10) @ [''0123456789'' ! (n mod 10)])"
  by pat_completeness auto
termination
  by (relation "measure (\<lambda>n. n)") auto

declare show_nat.simps [simp del]

definition show_int :: "int \<Rightarrow> string" where
  "show_int i = (if i < 0 then ''-'' @ show_nat (nat (- i)) else show_nat (nat i))"


section \<open>Fetching pages\<close>

definition maxPage_step :: "int \<Rightarrow> int option \<Rightarrow> int" where
  "maxPage_step maxPage pageNum =
     (case pageNum of None \<Rightarrow> maxPage
      | Some n \<Rightarrow> if n > maxPage then n else maxPage)"

definition getPageCount :: "env \<Rightarrow> string \<Rightarrow> string \<Rightarrow> int async" where
  "getPageCount e url errorContext s =
     (case electronAPI_fetchUrl e url s of (result, s1) \<Rightarrow>
        if \<not> success result
        then (Inl (''Failed to fetch '' @ errorContext @ '': '' @ error result), s1)
        else (case paginationLinks e (html result) of
                None \<Rightarrow> (Inr 1, s1)
              | Some pageLinks \<Rightarrow> (Inr (foldl maxPage_step 1 pageLinks), s1)))"

definition getHistoryPageCount :: "env \<Rightarrow> string \<Rightarrow> int async" where
  "getHistoryPageCount e username =
     getPageCount e (AO3_BASE_URL @ ''/users/'' @ username @ ''/readings'') ''history''"

definition getBookmarkPageCount :: "env \<Rightarrow> string \<Rightarrow> int async" where
  "getBookmarkPageCount e username =
     getPageCount e (AO3_BASE_URL @ ''/users/'' @ username @ ''/bookmarks'') ''bookmarks''"

definition scrapeHistoryPage :: "env \<Rightarrow> string \<Rightarrow> int \<Rightarrow> work list async" where
  "scrapeHistoryPage e username pageNum s =
     (case electronAPI_fetchUrl e
             (AO3_BASE_URL @ ''/users/'' @ username @ ''/readings?page='' @ show_int pageNum) s
      of (result, s1) \<Rightarrow>
        if \<not> success result
        then (Inl (''Failed to fetch history page '' @ show_int pageNum @ '': '' @ error result), s1)
        else (Inr (push_parsed parseHistoryItem (readingBlurbs e (html result))), s1))"

definition scrapeBookmarkPage :: "env \<Rightarrow> string \<Rightarrow> int \<Rightarrow> work list async" where
  "scrapeBookmarkPage e username pageNum s =
     (case electronAPI_fetchUrl e
             (AO3_BASE_URL @ ''/users/'' @ username @ ''/bookmarks?page='' @ show_int pageNum) s
      of (result, s1) \<Rightarrow>
        if \<not> success result
        then (Inl (''Failed to fetch bookmark page '' @ show_int pageNum @ '': '' @ error result), s1)
        else (Inr (push_parsed parseBookmarkItem (bookmarkBlurbs e (html result))), s1))"

text \<open>\<open>isWithinLastYear\<close>: a missing, empty or unparseable date is kept.\<close>

definition isWithinLastYear :: "env \<Rightarrow> string option \<Rightarrow> bool" where
  "isWithinLastYear e dateStr =
     (case dateStr of None \<Rightarrow> True
      | Some d \<Rightarrow> if d = [] then True
          else (case Date_parse e d of None \<Rightarrow> True | Some t \<Rightarrow> t \<ge> oneYearAgo e))"

definition fetchWorkMetadata :: "env \<Rightarrow> string \<Rightarrow> metadata async" where
  "fetchWorkMetadata e wid s =
     (case electronAPI_fetchUrl e (AO3_BASE_URL @ ''/works/'' @ wid @ ''?view_adult=true'') s
      of (result, s1) \<Rightarrow>
        if \<not> success result
        then (Inl (''Failed to fetch work '' @ wid @ '': '' @ error result), s1)
        else (case workPage e wid (html result) of
                Inl thrown \<Rightarrow> (Inl thrown, s1)
              | Inr m \<Rightarrow> (Inr (m\<lparr>m_workId := wid\<rparr>), s1)))"

section \<open>Listing loops\<close>

record scrapingOptions =
  timeRange :: string
  pageLimit :: int

definition cancelled_message :: string where
  "cancelled_message = ''Scraping cancelled by user''"

text \<open>The \<open>for\<close> loop of \<open>scrapeReadingHistory\<close>, entered at its test
  \<open>page <= totalPages\<close>.\<close>

function historyPages ::
  "env \<Rightarrow> string \<Rightarrow> int \<Rightarrow> int \<Rightarrow> work list \<Rightarrow> work list async" where
  "historyPages e username totalPages page allItems s =
     (if page \<le> totalPages then
        if isCancelled s then (Inl cancelled_message, s)
        else
          (case scrapeHistoryPage e username page
                  (onProgress
                     \<lparr> phase = ''history'',
                       message = ''Fetching reading history... Page '' @ show_int page @ ''/''
                                 @ show_int totalPages,
                       detail = Some ''Respecting AO3's servers - please wait'',
                       percent = 5 + (of_int page / of_int totalPages) * 25,
                       failedCount = None \<rparr> s)
           of (Inl thrown, s1) \<Rightarrow> (Inl thrown, s1)
            | (Inr items, s1) \<Rightarrow>
                historyPages e username totalPages (page + 1) (allItems @ items)
                  (if page < totalPages then delay e RATE_LIMIT_MS s1 else s1))
      else (Inr allItems, s))"
  by pat_completeness auto
termination
  by (relation "measure (\<lambda>(e, username, totalPages, page, allItems, s). nat (totalPages + 1 - page))")
     auto

declare historyPages.simps [simp del]

definition scrapeReadingHistory :: "env \<Rightarrow> string \<Rightarrow> scrapingOptions \<Rightarrow> work list async" where
  "scrapeReadingHistory e username options s =
     (case getHistoryPageCount e username
             (onProgress
                \<lparr> phase = ''init'', message = ''Checking your reading history size...'',
                  detail = None, percent = 0, failedCount = None \<rparr>
                (resetCancel s))
      of (Inl thrown, s1) \<Rightarrow> (Inl thrown, s1)
       | (Inr counted, s1) \<Rightarrow>
           (let totalPages =
                  (if timeRange options = ''pages'' \<and> pageLimit options > 0
                   then min counted (pageLimit options) else counted)
            in case historyPages e username totalPages 1 []
                  (onProgress
                     \<lparr> phase = ''history'',
                       message = ''Found '' @ show_int totalPages @ '' pages of reading history'',
                       detail = None, percent = 5, failedCount = None \<rparr> s1)
               of (Inl thrown, s2) \<Rightarrow> (Inl thrown, s2)
                | (Inr allItems, s2) \<Rightarrow>
                    if timeRange options = ''year''
                    then (Inr (filter (\<lambda>item. isWithinLastYear e (lastVisited item)) allItems), s2)
                    else (Inr allItems, s2)))"

text \<open>The \<open>for\<close> loop of \<open>scrapeBookmarks\<close>.\<close>

function bookmarkPages ::
  "env \<Rightarrow> string \<Rightarrow> rat \<Rightarrow> int \<Rightarrow> int \<Rightarrow> work list \<Rightarrow> work list async" where
  "bookmarkPages e username progressOffset totalPages page allItems s =
     (if page \<le> totalPages then
        if isCancelled s then (Inl cancelled_message, s)
        else
          (case scrapeBookmarkPage e username page
                  (onProgress
                     \<lparr> phase = ''bookmarks'',
                       message = ''Fetching bookmarks... Page '' @ show_int page @ ''/''
                                 @ show_int totalPages,
                       detail = Some ''Respecting AO3's servers - please wait'',
                       percent = progressOffset + (of_int page / of_int totalPages) * 12,
                       failedCount = None \<rparr> s)
           of (Inl thrown, s1) \<Rightarrow> (Inl thrown, s1)
            | (Inr items, s1) \<Rightarrow>
                bookmarkPages e username progressOffset totalPages (page + 1) (allItems @ items)
                  (if page < totalPages then delay e RATE_LIMIT_MS s1 else s1))
      else (Inr allItems, s))"
  by pat_completeness auto
termination
  by (relation "measure (\<lambda>(e, username, progressOffset, totalPages, page, allItems, s).
                  nat (totalPages + 1 - page))")
     auto

declare bookmarkPages.simps [simp del]

definition scrapeBookmarks ::
  "env \<Rightarrow> string \<Rightarrow> scrapingOptions \<Rightarrow> rat \<Rightarrow> work list async" where
  "scrapeBookmarks e username options progressOffset s =
     (case getBookmarkPageCount e username s
      of (Inl thrown, s1) \<Rightarrow> (Inl thrown, s1)
       | (Inr counted, s1) \<Rightarrow>
           (let totalPages =
                  (if timeRange options = ''pages'' \<and> pageLimit options > 0
                   then min counted (pageLimit options) else counted)
            in case bookmarkPages e username progressOffset totalPages 1 []
                  (onProgress
                     \<lparr> phase = ''bookmarks'',
                       message = ''Found '' @ show_int totalPages @ '' pages of bookmarks'',
                       detail = None, percent = progressOffset + 2, failedCount = None \<rparr> s1)
               of (Inl thrown, s2) \<Rightarrow> (Inl thrown, s2)
                | (Inr allItems, s2) \<Rightarrow>
                    if timeRange options = ''year''
                    then (Inr (filter (\<lambda>item. isWithinLastYear e (lastVisited item)) allItems), s2)
                    else (Inr allItems, s2)))"

section \<open>Enrichment (\<open>enrichWithMetadata\<close>)\<close>

text \<open>
  The \<open>for ... of\<close> loop over the items still to visit. \<open>visited\<close> are the items
  already passed, as the loop left them: the source changes the objects of the input
  array in place and returns that array. \<open>completed\<close> and \<open>failed\<close> are the two
  counters, \<open>total0\<close> is the source's \<open>total\<close>. An error thrown by
  \<open>fetchWorkMetadata\<close> is caught and counted.
\<close>

fun enrichItems ::
  "env \<Rightarrow> nat \<Rightarrow> work list \<Rightarrow> work list \<Rightarrow> nat \<Rightarrow> nat \<Rightarrow> (work list \<times> nat) async" where
  "enrichItems e total0 [] visited completed failed s = (Inr (visited, failed), s)"
| "enrichItems e total0 (item # rest) visited completed failed s =
     (if isCancelled s then (Inl cancelled_message, s)
      else
        (case fetchWorkMetadata e (workId item)
                (onProgress
                   \<lparr> phase = ''metadata'',
                     message = ''Analyzing works... '' @ show_nat (completed + 1) @ ''/''
                               @ show_nat total0,
                     detail = Some ([CHR 0x22] @ title item @ [CHR 0x22]),
                     percent = 30 + (of_nat completed / of_nat total0) * 60,
                     failedCount = Some failed \<rparr> s)
         of (Inr m, s1) \<Rightarrow>
              enrichItems e total0 rest (visited @ [Object_assign item m]) (completed + 1) failed
                (if completed + 1 < total0 then delay e RATE_LIMIT_MS s1 else s1)
          | (Inl thrown, s1) \<Rightarrow>
              enrichItems e total0 rest (visited @ [item]) (completed + 1) (failed + 1)
                (if completed + 1 < total0 then delay e RATE_LIMIT_MS s1 else s1)))"

definition enrichWithMetadata :: "env \<Rightarrow> work list \<Rightarrow> (work list \<times> nat) async" where
  "enrichWithMetadata e historyItems =
     enrichItems e (length historyItems) historyItems [] 0 0"


section \<open>The whole run (\<open>scrapeAll\<close>)\<close>

text \<open>The options object; a missing property takes the default of the destructuring
  \<open>{ source = 'both', timeRange = 'year', pageLimit = 10 }\<close>.\<close>

record options =
  opt_source :: "string option"
  opt_timeRange :: "string option"
  opt_pageLimit :: "int option"

datatype scrape_result =
    Success (r_items: "work list") (r_totalWorks: nat) (r_failed: nat) (r_message: string)
  | Cancelled (r_message: string)
  | Failure (r_error: string) (r_message: string)

text \<open>\<open>String.prototype.includes\<close>.\<close>

fun String_includes :: "string \<Rightarrow> string \<Rightarrow> bool" where
  "String_includes [] sub = (sub = [])"
| "String_includes (c # cs) sub =
     (if prefix sub (c # cs) then True else String_includes cs sub)"

text \<open>The body of the \<open>try\<close> block, in the three phases that its comments name.
  Phase 1a: the reading history, if the source asks for it.\<close>

definition phase1a :: "env \<Rightarrow> string \<Rightarrow> string \<Rightarrow> scrapingOptions \<Rightarrow> work list async" where
  "phase1a e username src scraping s =
     (if src = ''both'' \<or> src = ''history''
      then scrapeReadingHistory e username scraping s
      else (Inr [], s))"

text \<open>Phase 1b: the bookmarks, if the source asks for them, after a delay when the
  history was fetched before; then the merge.\<close>

definition phase1b ::
  "env \<Rightarrow> string \<Rightarrow> string \<Rightarrow> scrapingOptions \<Rightarrow> work list \<Rightarrow> work list async" where
  "phase1b e username src scraping historyItems s =
     (if src = ''both'' \<or> src = ''bookmarks''
      then (case scrapeBookmarks e username scraping (if src = ''both'' then 30 else 0)
                  (if src = ''both'' then delay e RATE_LIMIT_MS s else s)
            of (Inl thrown, s1) \<Rightarrow> (Inl thrown, s1)
             | (Inr bookmarkItems, s1) \<Rightarrow>
                 (Inr (if src = ''both'' then mergeItems historyItems bookmarkItems
                       else bookmarkItems), s1))
      else (Inr historyItems, s))"

text \<open>The early return for an empty collection, then phase 2 (the enrichment) and
  phase 3 (the result).\<close>

definition phase2 :: "env \<Rightarrow> string \<Rightarrow> work list \<Rightarrow> scrape_result async" where
  "phase2 e src allItems s =
     (if length allItems = 0
      then (Inr (Success [] 0 0
                  (if src = ''bookmarks'' then ''No bookmarks found''
                   else if src = ''history'' then ''No reading history found''
                   else ''No reading history or bookmarks found'')), s)
      else
        (case enrichWithMetadata e allItems
                (delay e RATE_LIMIT_MS
                   (onProgress
                      \<lparr> phase = ''metadata'',
                        message = ''Starting to analyze individual works...'',
                        detail = Some (show_nat (length allItems) @ '' works to process''),
                        percent = 30, failedCount = None \<rparr> s))
         of (Inl thrown, s1) \<Rightarrow> (Inl thrown, s1)
          | (Inr (enriched, failures), s1) \<Rightarrow>
              (Inr (Success enriched (length enriched) failures
                     (if failures > 0
                      then ''Completed with '' @ show_nat failures
                           @ '' works that couldn't be fully loaded''
                      else ''All works processed successfully'')),
               onProgress
                 \<lparr> phase = ''complete'', message = ''Calculating your stats...'',
                   detail = None, percent = 95, failedCount = None \<rparr> s1)))"

definition scrapeAll_try :: "env \<Rightarrow> string \<Rightarrow> options \<Rightarrow> scrape_result async" where
  "scrapeAll_try e username opts s =
     (let src = (case opt_source opts of None \<Rightarrow> ''both'' | Some x \<Rightarrow> x);
          scraping = \<lparr> timeRange = (case opt_timeRange opts of None \<Rightarrow> ''year'' | Some x \<Rightarrow> x),
                       pageLimit = (case opt_pageLimit opts of None \<Rightarrow> 10 | Some x \<Rightarrow> x) \<rparr>
      in
      (case phase1a e username src scraping (resetCancel s)
       of (Inl thrown, s1) \<Rightarrow> (Inl thrown, s1)
        | (Inr historyItems, s1) \<Rightarrow>
            (case phase1b e username src scraping historyItems s1
             of (Inl thrown, s2) \<Rightarrow> (Inl thrown, s2)
              | (Inr allItems, s2) \<Rightarrow> phase2 e src allItems s2)))"

text \<open>The \<open>catch\<close> block turns every thrown error into a result.\<close>

definition scrapeAll :: "env \<Rightarrow> string \<Rightarrow> options \<Rightarrow> hstate \<Rightarrow> scrape_result \<times> hstate" where
  "scrapeAll e username opts s =
     (case scrapeAll_try e username opts s
      of (Inr result, s1) \<Rightarrow> (result, s1)
       | (Inl thrown, s1) \<Rightarrow>
           if String_includes thrown ''cancelled''
           then (Cancelled ''Scraping was cancelled'', s1)
           else (Failure thrown (''Scraping failed: '' @ thrown), s1))"

text \<open>Observations on the trace of a run.\<close>

fun percents :: "event list \<Rightarrow> rat list" where
  "percents [] = []"
| "percents (Progress p # evs) = percent p # percents evs"
| "percents (ev # evs) = percents evs"

text \<open>\<open>spaced waited evs\<close>: every fetch of \<open>evs\<close> is preceded by a delay of at least
  the rate limit since the fetch before it; \<open>waited\<close> says that the first fetch needs
  no delay before it.\<close>

fun spaced :: "bool \<Rightarrow> event list \<Rightarrow> bool" where
  "spaced waited [] = True"
| "spaced waited (Fetch url # evs) = (waited \<and> spaced False evs)"
| "spaced waited (Delay ms # evs) = spaced (waited \<or> ms \<ge> RATE_LIMIT_MS) evs"
| "spaced waited (Progress p # evs) = spaced waited evs"

definition start :: hstate where
  "start = \<lparr> tick = 0, cancelRequested = False, trace = [] \<rparr>"


section \<open>The aggregator (\<open>analyze\<close>)\<close>

text \<open>
  The repository holds two revisions of \<open>StatsAnalyzer\<close>: \<open>src/analyzer.js\<close> and the
  second document of \<open>src/unnamed/part_001\<close>. They agree on every section modelled
  here except the mood statistics and the rarest pair; the bookmark statistics and
  \<open>rarestPairs\<close> exist in \<open>part_001\<close> only. Definitions without a suffix follow
  \<open>part_001\<close>; the suffix \<open>_v1\<close> marks the text of \<open>analyzer.js\<close> where it differs.
\<close>

definition count_item :: "(string \<times> nat) list \<Rightarrow> string \<Rightarrow> (string \<times> nat) list" where
  "count_item counts item =
     (if item \<noteq> []
      then Map_set counts item ((case Map_get counts item of None \<Rightarrow> 0 | Some c \<Rightarrow> c) + 1)
      else counts)"

definition countOccurrences :: "string list \<Rightarrow> (string \<times> nat) list" where
  "countOccurrences xs = foldl count_item [] xs"

text \<open>\<open>Array.prototype.sort\<close> is stable; the comparator \<open>b[1] - a[1]\<close> orders by
  descending count.\<close>

definition getTopN :: "(string \<times> nat) list \<Rightarrow> nat \<Rightarrow> (string \<times> nat) list" where
  "getTopN m limit = take limit (sort_key (\<lambda>entry. - int (snd entry)) m)"

text \<open>\<open>Math.round\<close> rounds a half upwards. It is applied here to the exact
  quotient, where the code rounds the double \<open>(count / total) * 100\<close>. The two agree
  unless the exact value is a half and the double falls just below it: 23 of 40 is 57.5
  exactly and rounds to 58, the double is 57.49999999999999 and rounds to 57. The
  statements below do not depend on which way a half goes: they bound a percentage by
  its distance of at most one half from the exact quotient, which holds of the double
  too, or they are instances whose quotients are exact doubles.\<close>

definition Math_round :: "rat \<Rightarrow> int" where
  "Math_round x = \<lfloor>x + 1 / 2\<rfloor>"

definition Map_get_or_0 :: "(string \<times> nat) list \<Rightarrow> string \<Rightarrow> nat" where
  "Map_get_or_0 m k = (case Map_get m k of None \<Rightarrow> 0 | Some c \<Rightarrow> c)"

definition visitCount_or_1 :: "work \<Rightarrow> int" where
  "visitCount_or_1 w = (case visitCount w of None \<Rightarrow> 1 | Some n \<Rightarrow> if n = 0 then 1 else n)"

definition visitCount_or_0 :: "work \<Rightarrow> int" where
  "visitCount_or_0 w = (case visitCount w of None \<Rightarrow> 0 | Some n \<Rightarrow> n)"

subsection \<open>Ships\<close>

definition shipCounts :: "work list \<Rightarrow> (string \<times> nat) list" where
  "shipCounts works = countOccurrences (concat (map relationships works))"

definition topShips_of :: "work list \<Rightarrow> (string \<times> nat) list" where
  "topShips_of works = getTopN (shipCounts works) 10"

definition rareShips :: "work list \<Rightarrow> string list" where
  "rareShips works = map fst (filter (\<lambda>(ship, count). count = 1) (shipCounts works))"

text \<open>\<open>stats.topShips[stats.topShips.length - 1]?.[0] || null\<close>\<close>

definition last_topShip :: "work list \<Rightarrow> string option" where
  "last_topShip works =
     (case topShips_of works of
        [] \<Rightarrow> None
      | entry # entries \<Rightarrow>
          (let ship = fst (last (entry # entries)) in if ship = [] then None else Some ship))"

definition rarestPair_of :: "work list \<Rightarrow> string option" where
  "rarestPair_of works =
     (if length (rareShips works) > 0 then Some (rareShips works ! 0) else last_topShip works)"

text \<open>In \<open>analyzer.js\<close> the pick among the rare ships is
  \<open>rareShips[Math.floor(Math.random() * rareShips.length)]\<close>; \<open>random\<close> is the value
  drawn by \<open>Math.random()\<close>.\<close>

definition rarestPair_v1 :: "rat \<Rightarrow> work list \<Rightarrow> string option" where
  "rarestPair_v1 random works =
     (if length (rareShips works) > 0
      then (let i = \<lfloor>random * of_nat (length (rareShips works))\<rfloor>
            in if 0 \<le> i \<and> nat i < length (rareShips works)
               then Some (rareShips works ! nat i) else None)
      else last_topShip works)"

subsection \<open>Rating breakdown\<close>

record rating_entry =
  re_rating :: string
  re_shortName :: string
  re_count :: nat
  re_percent :: int

definition ratingOrder :: "string list" where
  "ratingOrder =
     [''Explicit'', ''Mature'', ''Teen And Up Audiences'', ''General Audiences'', ''Not Rated'']"

definition ratingCounts :: "work list \<Rightarrow> (string \<times> nat) list" where
  "ratingCounts works = countOccurrences (map rating_or_Unknown works)"

definition ratingBreakdown_of :: "work list \<Rightarrow> rating_entry list" where
  "ratingBreakdown_of works =
     map (\<lambda>r.
           \<lparr> re_rating = r,
             re_shortName =
               (if r = ''Teen And Up Audiences'' then ''Teen''
                else if r = ''General Audiences'' then ''General''
                else if r = ''Not Rated'' then ''Unrated'' else r),
             re_count = Map_get_or_0 (ratingCounts works) r,
             re_percent =
               (if length works > 0
                then Math_round
                       (of_nat (Map_get_or_0 (ratingCounts works) r) / of_nat (length works) * 100)
                else 0) \<rparr>)
         ratingOrder"

subsection \<open>Fluff and angst\<close>

text \<open>\<open>toLowerCase\<close> on the ASCII letters; every other byte is left as it is. The
  tags compared with it are ASCII.\<close>

definition toLowerCase :: "string \<Rightarrow> string" where
  "toLowerCase str =
     map (\<lambda>c. if 65 \<le> (of_char c :: nat) \<and> (of_char c :: nat) \<le> 90
               then char_of ((of_char c :: nat) + 32) else c) str"

definition fluffTags :: "string list" where
  "fluffTags = [''Fluff'', ''Tooth-Rotting Fluff'', ''Domestic Fluff'', ''Romantic Fluff'']"

definition angstTags :: "string list" where
  "angstTags =
     [''Angst'', ''Heavy Angst'', ''Angst with a Happy Ending'', ''Angst and Hurt/Comfort'']"

definition hasTag :: "string list \<Rightarrow> work \<Rightarrow> bool" where
  "hasTag moodTags w =
     list_ex (\<lambda>t. list_ex (\<lambda>f. String_includes (toLowerCase t) (toLowerCase f)) moodTags)
       (freeformTags w)"

definition fluffCount :: "work list \<Rightarrow> nat" where
  "fluffCount works = length (filter (hasTag fluffTags) works)"

definition angstCount :: "work list \<Rightarrow> nat" where
  "angstCount works = length (filter (hasTag angstTags) works)"

record mood =
  fluff :: nat
  angst :: nat
  fluffPercent :: int
  angstPercent :: int
  preference :: string

definition mood_preference :: "nat \<Rightarrow> nat \<Rightarrow> string" where
  "mood_preference f a = (if f > a then ''Fluff'' else if a > f then ''Angst'' else ''Balanced'')"

text \<open>\<open>part_001\<close>: the percentages are taken over \<open>moodTotal\<close>.\<close>

definition moodStats_of :: "work list \<Rightarrow> mood" where
  "moodStats_of works =
     (let moodTotal = fluffCount works + angstCount works;
          fp = (if moodTotal > 0
                then Math_round (of_nat (fluffCount works) / of_nat moodTotal * 100) else 0);
          ap = (if moodTotal > 0 then 100 - fp else 0)
      in \<lparr> fluff = fluffCount works, angst = angstCount works,
           fluffPercent = fp, angstPercent = ap,
           preference = mood_preference (fluffCount works) (angstCount works) \<rparr>)"

text \<open>\<open>analyzer.js\<close>: the percentages are taken over \<open>stats.totalWorks\<close>.\<close>

definition moodStats_v1 :: "work list \<Rightarrow> mood" where
  "moodStats_v1 works =
     \<lparr> fluff = fluffCount works, angst = angstCount works,
       fluffPercent = Math_round (of_nat (fluffCount works) / of_nat (length works) * 100),
       angstPercent = Math_round (of_nat (angstCount works) / of_nat (length works) * 100),
       preference = mood_preference (fluffCount works) (angstCount works) \<rparr>"

subsection \<open>Length distribution\<close>

record length_entry =
  le_label :: string
  le_count :: nat
  le_percent :: int

definition lengthBuckets :: "work list \<Rightarrow> (string \<times> nat) list" where
  "lengthBuckets works =
     [(''Drabbles (<1K)'', length (filter (\<lambda>w. wordCount_or_0 w < 1000) works)),
      (''Short (1K-5K)'',
         length (filter (\<lambda>w. wordCount_or_0 w \<ge> 1000 \<and> wordCount_or_0 w < 5000) works)),
      (''Medium (5K-20K)'',
         length (filter (\<lambda>w. wordCount_or_0 w \<ge> 5000 \<and> wordCount_or_0 w < 20000) works)),
      (''Long (20K-50K)'',
         length (filter (\<lambda>w. wordCount_or_0 w \<ge> 20000 \<and> wordCount_or_0 w < 50000) works)),
      (''Epic (50K-100K)'',
         length (filter (\<lambda>w. wordCount_or_0 w \<ge> 50000 \<and> wordCount_or_0 w < 100000) works)),
      (''Novel+ (100K+)'', length (filter (\<lambda>w. wordCount_or_0 w \<ge> 100000) works))]"

definition lengthDistribution_of :: "work list \<Rightarrow> length_entry list" where
  "lengthDistribution_of works =
     map (\<lambda>(label, count).
           \<lparr> le_label = label, le_count = count,
             le_percent = Math_round (of_nat count / of_nat (length works) * 100) \<rparr>)
         (lengthBuckets works)"

subsection \<open>Bookmark statistics (\<open>part_001\<close>)\<close>

record personality =
  p_type :: string
  p_message :: string

record bookmark_stats =
  totalBookmarks :: nat
  totalHistory :: nat
  bookmarkRatio :: int
  secretFavorite :: "work option"
  bookmark_personality :: personality

definition bookmarkedWorks :: "work list \<Rightarrow> work list" where
  "bookmarkedWorks works = filter (\<lambda>w. source w = Some ''bookmark'' \<or> isBookmarked w) works"

definition historyWorks :: "work list \<Rightarrow> work list" where
  "historyWorks works =
     filter (\<lambda>w. source w = Some ''history'' \<or>
                 (case visitCount w of None \<Rightarrow> False | Some n \<Rightarrow> n > 0)) works"

definition revisitedNotBookmarked :: "work list \<Rightarrow> work list" where
  "revisitedNotBookmarked works =
     sort_key (\<lambda>w. - visitCount_or_0 w)
       (filter (\<lambda>w. visitCount_or_0 w \<ge> 2 \<and> \<not> isBookmarked w \<and> source w \<noteq> Some ''bookmark'')
          works)"

text \<open>The dash of the first message is a Unicode dash in the source; it is written
  as a hyphen here.\<close>

definition personality_of :: "int \<Rightarrow> nat \<Rightarrow> personality" where
  "personality_of ratio bookmarked =
     (if ratio > 75 then
        \<lparr> p_type = ''librarian'',
          p_message = ''You're a librarian at heart - organized, intentional, and you know what deserves a spot.'' \<rparr>
      else if ratio > 40 then
        \<lparr> p_type = ''balanced'',
          p_message = ''A healthy mix of bookmarking and casual reading. You know quality when you see it.'' \<rparr>
      else if ratio > 10 then
        \<lparr> p_type = ''chaos'',
          p_message = ''You're a serial re-reader who refuses commitment. We respect the chaos.'' \<rparr>
      else if bookmarked = 0 then
        \<lparr> p_type = ''dangerous'',
          p_message = ''You live dangerously. Your memory is your bookmarks.'' \<rparr>
      else
        \<lparr> p_type = ''dragon'',
          p_message = ''Every good fic is a treasure and you hoard like a dragon.'' \<rparr>)"

definition bookmarkStats_of :: "work list \<Rightarrow> bookmark_stats" where
  "bookmarkStats_of works =
     (let ratio = (if length works > 0
                   then Math_round (of_nat (length (bookmarkedWorks works))
                                    / of_nat (length works) * 100)
                   else 0)
      in \<lparr> totalBookmarks = length (bookmarkedWorks works),
           totalHistory = length (historyWorks works),
           bookmarkRatio = ratio,
           secretFavorite =
             (case revisitedNotBookmarked works of [] \<Rightarrow> None | w # ws \<Rightarrow> Some w),
           bookmark_personality = personality_of ratio (length (bookmarkedWorks works)) \<rparr>)"

subsection \<open>The statistics object\<close>

record statistics =
  st_totalWorks :: nat
  st_totalWords :: int
  st_averageWords :: int
  st_totalVisits :: int
  topShips :: "(string \<times> nat) list"
  topShip :: "string \<times> nat"
  ratingBreakdown :: "rating_entry list"
  smutPercentage :: int
  rarestPairs :: "string list option"
  rarestPair :: "string option"
  moodStats :: mood
  lengthDistribution :: "length_entry list"
  bookmarkStats :: "bookmark_stats option"

text \<open>\<open>IsEmpty\<close> is the object \<open>{ isEmpty: true, totalWorks: 0 }\<close>; \<open>Stats\<close> carries
  the populated object, whose \<open>isEmpty\<close> is \<open>false\<close>.\<close>

datatype analysis = IsEmpty | Stats (stats: statistics)

definition basic_stats :: "work list \<Rightarrow> statistics" where
  "basic_stats works =
     \<lparr> st_totalWorks = length works,
       st_totalWords = sum_list (map wordCount_or_0 works),
       st_averageWords =
         Math_round (of_int (sum_list (map wordCount_or_0 works)) / of_nat (length works)),
       st_totalVisits = foldl (\<lambda>acc w. acc + visitCount_or_1 w) 0 works,
       topShips = topShips_of works,
       topShip = (case topShips_of works of [] \<Rightarrow> (''Unknown'', 0) | entry # entries \<Rightarrow> entry),
       ratingBreakdown = ratingBreakdown_of works,
       smutPercentage =
         Math_round (of_nat (Map_get_or_0 (ratingCounts works) ''Explicit'')
                     / of_nat (length works) * 100),
       rarestPairs = None,
       rarestPair = None,
       moodStats = moodStats_of works,
       lengthDistribution = lengthDistribution_of works,
       bookmarkStats = None \<rparr>"

definition analyze :: "work list \<Rightarrow> analysis" where
  "analyze works =
     (if length works = 0 then IsEmpty
      else Stats ((basic_stats works)
                    \<lparr> rarestPairs := Some (take 5 (rareShips works)),
                      rarestPair := rarestPair_of works,
                      moodStats := moodStats_of works,
                      bookmarkStats := Some (bookmarkStats_of works) \<rparr>))"

definition analyze_v1 :: "rat \<Rightarrow> work list \<Rightarrow> analysis" where
  "analyze_v1 random works =
     (if length works = 0 then IsEmpty
      else Stats ((basic_stats works)
                    \<lparr> rarestPair := rarestPair_v1 random works,
                      moodStats := moodStats_v1 works \<rparr>))"


section \<open>Notions used in the statements about a run\<close>

text \<open>The outcome of the detail fetch for \<open>wid\<close> when it is issued at suspension
  \<open>n\<close>: what \<open>fetchWorkMetadata\<close> returns or throws there.\<close>

definition metadata_at :: "env \<Rightarrow> nat \<Rightarrow> string \<Rightarrow> string + metadata" where
  "metadata_at e n wid =
     fst (fetchWorkMetadata e wid \<lparr> tick = n, cancelRequested = False, trace = [] \<rparr>)"

text \<open>The answer to the detail fetch for \<open>wid\<close> issued at suspension \<open>n\<close>, and what
  it is for that detail fetch to fail: the answer has \<open>success: false\<close>, or reading the
  work page throws.\<close>

definition detail_page :: "env \<Rightarrow> nat \<Rightarrow> string \<Rightarrow> response" where
  "detail_page e n wid =
     fetchUrl e n (''https://archiveofourown.org/works/'' @ wid @ ''?view_adult=true'')"

definition detail_fails :: "env \<Rightarrow> nat \<Rightarrow> string \<Rightarrow> bool" where
  "detail_fails e n wid =
     (\<not> success (detail_page e n wid) \<or> isl (workPage e wid (html (detail_page e n wid))))"

text \<open>What the enrichment loop leaves of the items when the first of them is fetched
  at suspension \<open>n\<close> and nobody cancels: a fetch and a delay pass for each item, so
  the next item is fetched at suspension \<open>n + 2\<close>. \<open>failures_from\<close> counts the
  detail fetches that fail.\<close>

fun enriched_from :: "env \<Rightarrow> nat \<Rightarrow> work list \<Rightarrow> work list" where
  "enriched_from e n [] = []"
| "enriched_from e n (item # rest) =
     (case metadata_at e n (workId item) of
        Inl thrown \<Rightarrow> item
      | Inr m \<Rightarrow> Object_assign item m) # enriched_from e (n + 2) rest"

fun failures_from :: "env \<Rightarrow> nat \<Rightarrow> work list \<Rightarrow> nat" where
  "failures_from e n [] = 0"
| "failures_from e n (item # rest) =
     (if isl (metadata_at e n (workId item)) then 1 else 0) + failures_from e (n + 2) rest"

text \<open>\<open>quiet e n\<close>: \<open>requestCancel()\<close> is not called during the first \<open>n\<close>
  suspensions. \<open>flag_exact e s\<close>: the flag \<open>cancelRequested\<close> is set exactly when a
  request arrived during one of the suspensions passed so far.\<close>

definition quiet :: "env \<Rightarrow> nat \<Rightarrow> bool" where
  "quiet e n \<longleftrightarrow> (\<forall>k < n. \<not> cancelDuring e k)"

definition flag_exact :: "env \<Rightarrow> hstate \<Rightarrow> bool" where
  "flag_exact e s \<longleftrightarrow> (cancelRequested s \<longleftrightarrow> \<not> quiet e (tick s))"

text \<open>The same environment when nobody calls \<open>requestCancel()\<close> or \<open>resetCancel()\<close>
  while the run is suspended: the run left alone.\<close>

definition left_alone :: "env \<Rightarrow> env" where
  "left_alone e = e\<lparr> flagCalls := (\<lambda>n. []) \<rparr>"

text \<open>\<open>in_step s s0\<close>: the run left alone, in state \<open>s0\<close>, has passed as many
  suspensions as the run in state \<open>s\<close>, and its flag is clear.\<close>

definition in_step :: "hstate \<Rightarrow> hstate \<Rightarrow> bool" where
  "in_step s s0 \<longleftrightarrow> tick s0 = tick s \<and> \<not> cancelRequested s0"

section \<open>Sample inputs\<close>

text \<open>A listing row that shows a work id and a title and nothing else, and the item
  that \<open>parseHistoryItem\<close> builds from it.\<close>

definition a_row :: "string \<Rightarrow> blurb" where
  "a_row wid =
     \<lparr> b_workId = Some wid, b_title = ''T'', b_authors = [], b_fandoms = [],
       b_visited = False, b_visits = None, b_datetime = None, b_warnings = [], b_relationships = [],
       b_characters = [], b_freeforms = [], b_words = None \<rparr>"

definition a_work :: "string \<Rightarrow> work" where
  "a_work wid =
     \<lparr> workId = wid, title = ''T'', authors = [], fandoms = [], visitCount = Some 1,
       lastVisited = None, warnings = [], relationships = [], characters = [],
       freeformTags = [], wordCount = None, isBookmark = False, rating = None,
       kudos = None, bookmarks = None, chapters = None, complete = None,
       datePublished = None, hits = None, dateUpdated = None, source = None,
       isBookmarked = False \<rparr>"

text \<open>Eight enriched works: four rated Explicit and one of each other rating; one
  work in each of the first five length bands and three in the last.\<close>

definition rated :: "string \<Rightarrow> string \<Rightarrow> int \<Rightarrow> work" where
  "rated wid r n = (a_work wid)\<lparr>rating := Some r, wordCount := Some n\<rparr>"

definition works8 :: "work list" where
  "works8 =
     [rated ''1'' ''Explicit'' 500, rated ''2'' ''Explicit'' 2000,
      rated ''3'' ''Explicit'' 7000, rated ''4'' ''Explicit'' 30000,
      rated ''5'' ''Mature'' 60000, rated ''6'' ''Teen And Up Audiences'' 150000,
      rated ''7'' ''General Audiences'' 150000, rated ''8'' ''Not Rated'' 150000]"

text \<open>The metadata read from a finished one-chapter work page.\<close>

definition a_metadata :: metadata where
  "a_metadata =
     \<lparr> m_workId = [], m_rating = ''General Audiences'', m_warnings = [], m_fandoms = [],
       m_relationships = [], m_characters = [], m_freeformTags = [],
       m_wordCount = Some 1000, m_chapters = Some ''1/1'', m_kudos = Some 10,
       m_bookmarks = Some 1, m_hits = Some 100, m_datePublished = Some ''2024-03-15'',
       m_dateUpdated = None, m_complete = Some True \<rparr>"

text \<open>
  A small account: every fetch succeeds; the history and the bookmarks have one page
  each (no pagination control), the history page lists work 1 and the bookmarks page
  lists work 2; every work page can be read. \<open>quiet_account c\<close> is that account with
  \<open>requestCancel()\<close> called once during each suspension for which \<open>c\<close> holds.
\<close>

definition quiet_account :: "(nat \<Rightarrow> bool) \<Rightarrow> env" where
  "quiet_account c =
     \<lparr> fetchUrl = (\<lambda>n url. \<lparr> success = True, html = url, error = [] \<rparr>),
       flagCalls = (\<lambda>n. if c n then [RequestCancel] else []),
       paginationLinks = (\<lambda>page. None),
       readingBlurbs = (\<lambda>page. [a_row ''1'']),
       bookmarkBlurbs = (\<lambda>page. [a_row ''2'']),
       workPage = (\<lambda>wid page. Inr a_metadata),
       Date_parse = (\<lambda>d. None),
       oneYearAgo = 0 \<rparr>"

text \<open>The same account when the fetch issued at suspension 2 fails, the page of work 3
  cannot be read, and \<open>requestCancel()\<close> is called during suspension 4.\<close>

definition flaky_account :: env where
  "flaky_account =
     (quiet_account (\<lambda>n. n = 4))
       \<lparr> fetchUrl := (\<lambda>n url. \<lparr> success = (n \<noteq> 2), html = url, error = ''timeout'' \<rparr>),
         workPage := (\<lambda>wid page. if wid = ''3'' then Inl ''TypeError'' else Inr a_metadata) \<rparr>"

text \<open>The small account when \<open>requestCancel()\<close> is called during suspension 1 and
  \<open>resetCancel()\<close> during suspension 2 (the user cancels and starts again at once: the
  run started anew clears the flag in its first statement).\<close>

definition restarted_account :: env where
  "restarted_account =
     (quiet_account (\<lambda>n. False))
       \<lparr> flagCalls := (\<lambda>n. if n = 1 then [RequestCancel]
                            else if n = 2 then [ResetCancel] else []) \<rparr>"

text \<open>The small account when \<open>requestCancel()\<close> is called during suspension 2 and the
  fetch issued at suspension 3 fails.\<close>

definition failing_account :: env where
  "failing_account =
     (quiet_account (\<lambda>n. n = 2))
       \<lparr> fetchUrl := (\<lambda>n url. \<lparr> success = (n \<noteq> 3), html = url, error = ''timeout'' \<rparr>) \<rparr>"

text \<open>The small account with a second page of reading history.\<close>

definition two_page_account :: "(nat \<Rightarrow> bool) \<Rightarrow> env" where
  "two_page_account c = (quiet_account c) \<lparr> paginationLinks := (\<lambda>page. Some [Some 2]) \<rparr>"

definition history_only :: options where
  "history_only = \<lparr> opt_source = Some ''history'', opt_timeRange = None, opt_pageLimit = None \<rparr>"

definition default_options :: options where
  "default_options = \<lparr> opt_source = None, opt_timeRange = None, opt_pageLimit = None \<rparr>"

text \<open>Five works, three of them with a fluff tag and one of these with an angst tag too.\<close>

definition mood_sample :: "work list" where
  "mood_sample =
     [(a_work ''1'')\<lparr>freeformTags := [''Fluff'']\<rparr>,
      (a_work ''2'')\<lparr>freeformTags := [''AU'', ''fluffy'']\<rparr>,
      (a_work ''3'')\<lparr>freeformTags := [''Fluff'', ''Angst'']\<rparr>,
      (a_work ''4'')\<lparr>freeformTags := [''AU'']\<rparr>,
      a_work ''5'']"

text \<open>The fetches and delays of a trace, without the progress events.\<close>

fun requests :: "event list \<Rightarrow> event list" where
  "requests [] = []"
| "requests (Progress p # evs) = requests evs"
| "requests (ev # evs) = ev # requests evs"

section \<open>The filter stage\<close>

lemma array_includes_set: "array_includes ys x \<longleftrightarrow> x \<in> set ys"
  by (induction ys) auto

lemma applyFilters_keep_iff:
  "applyFilters_keep f w \<longleftrightarrow>
     wordCountMin f \<le> wordCount_or_0 w \<and> wordCount_or_0 w \<le> wordCountMax f \<and>
     rating_or_Unknown w \<in> set (ratings f)"
  by (auto simp: applyFilters_keep_def Let_def array_includes_set)

text \<open>
  C6. \<open>applyFilters\<close> returns, in their order, exactly the records whose word count
  lies in the inclusive range and whose rating is among the allowed ratings. The word
  count read is the record's \<open>wordCount\<close> field, 0 when the field is missing; the
  rating read is the record's \<open>rating\<close> field, "Unknown" when the field is missing (or
  the empty string, which \<open>||\<close> replaces as well). The result is a new list of records
  of the input, none of them changed, and filtering the result again with the same
  settings changes nothing.
\<close>

theorem applyFilters_exact_idempotent:
  "applyFilters works f =
     filter (\<lambda>w. wordCountMin f \<le> (case wordCount w of None \<Rightarrow> 0 | Some n \<Rightarrow> n)
                 \<and> (case wordCount w of None \<Rightarrow> 0 | Some n \<Rightarrow> n) \<le> wordCountMax f
                 \<and> (case rating w of None \<Rightarrow> ''Unknown''
                     | Some r \<Rightarrow> if r = [] then ''Unknown'' else r) \<in> set (ratings f))
            works
   \<and> set (applyFilters works f) \<subseteq> set works
   \<and> applyFilters (applyFilters works f) f = applyFilters works f"
proof -
  have "applyFilters_keep f =
     (\<lambda>w. wordCountMin f \<le> (case wordCount w of None \<Rightarrow> 0 | Some n \<Rightarrow> n)
                 \<and> (case wordCount w of None \<Rightarrow> 0 | Some n \<Rightarrow> n) \<le> wordCountMax f
                 \<and> (case rating w of None \<Rightarrow> ''Unknown''
                     | Some r \<Rightarrow> if r = [] then ''Unknown'' else r) \<in> set (ratings f))"
    by (rule ext) (simp add: applyFilters_keep_iff wordCount_or_0_def rating_or_Unknown_def)
  then show ?thesis
    by (simp add: applyFilters_def)
qed

text \<open>An instance with the range 0 to 1000 and the ratings "Unknown" and "Explicit"
  allowed: the work without word count and rating and the Explicit work of 500 words
  pass; the Explicit work of 5000 words, the Mature work of 500 words and the unrated
  work of 1001 words do not.\<close>

theorem applyFilters_witness:
  "applyFilters
     [a_work ''1'', rated ''2'' ''Explicit'' 5000, rated ''3'' ''Explicit'' 500,
      rated ''4'' ''Mature'' 500, (a_work ''5'')\<lparr>wordCount := Some 1001\<rparr>]
     \<lparr> wordCountMin = 0, wordCountMax = 1000, ratings = [''Unknown'', ''Explicit''] \<rparr>
     = [a_work ''1'', rated ''3'' ''Explicit'' 500]
   \<and> applyFilters
       (applyFilters
          [a_work ''1'', rated ''2'' ''Explicit'' 5000, rated ''3'' ''Explicit'' 500,
           rated ''4'' ''Mature'' 500, (a_work ''5'')\<lparr>wordCount := Some 1001\<rparr>]
          \<lparr> wordCountMin = 0, wordCountMax = 1000, ratings = [''Unknown'', ''Explicit''] \<rparr>)
       \<lparr> wordCountMin = 0, wordCountMax = 1000, ratings = [''Unknown'', ''Explicit''] \<rparr>
     = [a_work ''1'', rated ''3'' ''Explicit'' 500]"
proof -
  let ?ws = "[a_work ''1'', rated ''2'' ''Explicit'' 5000, rated ''3'' ''Explicit'' 500,
      rated ''4'' ''Mature'' 500, (a_work ''5'')\<lparr>wordCount := Some 1001\<rparr>]"
  let ?f = "\<lparr> wordCountMin = 0, wordCountMax = 1000, ratings = [''Unknown'', ''Explicit''] \<rparr>"
  note t = applyFilters_exact_idempotent [of ?ws ?f]
  have e: "applyFilters ?ws ?f = [a_work ''1'', rated ''3'' ''Explicit'' 500]"
    by (subst conjunct1[OF t]) (simp add: a_work_def rated_def)
  from t have "applyFilters (applyFilters ?ws ?f) ?f = applyFilters ?ws ?f" by blast
  with e show ?thesis by (simp only: simp_thms)
qed

section \<open>Merging\<close>

lemma map_of_Map_set: "map_of (Map_set m k v) = (map_of m)(k \<mapsto> v)"
  by (induction m k v rule: Map_set.induct) (auto simp: fun_eq_iff)

lemma fst_Map_set: "fst ` set (Map_set m k v) = insert k (fst ` set m)"
  by (induction m k v rule: Map_set.induct) auto

lemma distinct_Map_set: "distinct (map fst m) \<Longrightarrow> distinct (map fst (Map_set m k v))"
proof (induction m k v rule: Map_set.induct)
  case (1 k v)
  then show ?case by simp
next
  case (2 k' v' m k v)
  have "fst ` set (Map_set m k v) = insert k (fst ` set m)" by (rule fst_Map_set)
  with 2 show ?case by auto
qed

lemma set_Map_set: "set (Map_set m k v) \<subseteq> insert (k, v) (set m)"
  by (induction m k v rule: Map_set.induct) auto

lemma keyed_Map_set: "keyed m \<Longrightarrow> workId v = k \<Longrightarrow> keyed (Map_set m k v)"
  using set_Map_set[of m k v] by (auto simp: keyed_def distinct_Map_set)

lemma keyed_merge_history: "keyed (merge_history hs)"
  by (induction hs rule: rev_induct) (auto simp: merge_history_def keyed_Map_set, simp add: keyed_def)

lemma map_of_merge_history:
  "map_of (merge_history hs) k =
     (if k \<in> workId ` set hs then Some (last (filter (\<lambda>r. workId r = k) hs)) else None)"
  by (induction hs rule: rev_induct) (auto simp: merge_history_def map_of_Map_set)

lemma keyed_merge_bookmark: "keyed m \<Longrightarrow> keyed (merge_bookmark m b)"
  apply (auto simp: merge_bookmark_def Map_has_def Map_get_def keyed_Map_set split: option.splits)
  apply (rule keyed_Map_set)
   apply (auto simp: keyed_def dest!: map_of_SomeD)
  done

lemma keyed_foldl_bookmark: "keyed m \<Longrightarrow> keyed (foldl merge_bookmark m bs)"
  by (induction bs arbitrary: m) (auto simp: keyed_merge_bookmark)

lemma map_of_merge_bookmark_present:
  "map_of m k = Some h \<Longrightarrow>
   map_of (merge_bookmark m b) k = Some (if workId b = k then h\<lparr>isBookmark := True\<rparr> else h)"
  by (auto simp: merge_bookmark_def Map_has_def Map_get_def map_of_Map_set split: option.splits)

lemma map_of_foldl_bookmark_present:
  "map_of m k = Some h \<Longrightarrow>
   map_of (foldl merge_bookmark m bs) k =
     Some (if k \<in> workId ` set bs then h\<lparr>isBookmark := True\<rparr> else h)"
proof (induction bs arbitrary: m h)
  case Nil
  then show ?case by simp
next
  case (Cons b bs)
  from map_of_merge_bookmark_present[OF Cons.prems, of b]
  have "map_of (merge_bookmark m b) k = Some (if workId b = k then h\<lparr>isBookmark := True\<rparr> else h)" .
  from Cons.IH[OF this] show ?case by auto
qed

lemma keyed_filter:
  assumes "keyed m" "map_of m k = Some v"
  shows "filter (\<lambda>r. workId r = k) (map snd m) = [v]"
  using assms
proof (induction m)
  case Nil
  then show ?case by simp
next
  case (Cons p m)
  obtain k' v' where p: "p = (k', v')" by (cases p)
  from Cons.prems have km: "keyed m" and wk: "workId v' = k'" and nk: "k' \<notin> fst ` set m"
    by (auto simp: keyed_def p)
  show ?case
  proof (cases "k' = k")
    case True
    with Cons.prems p have "v' = v" by simp
    moreover have "filter (\<lambda>r. workId r = k) (map snd m) = []"
      using km nk True by (fastforce simp: keyed_def filter_empty_conv image_iff)
    ultimately show ?thesis using p wk True by simp
  next
    case False
    with Cons.prems p have "map_of m k = Some v" by simp
    from Cons.IH[OF km this] show ?thesis using p wk False by simp
  qed
qed

text \<open>
  C1. Whatever the two input lists are, no two records of the merged collection share a
  work id. For a work id that occurs in both lists, the merged collection holds exactly
  one record with that id: the history record filed under it (the last one, should the
  history list repeat the id) with \<open>isBookmark\<close> set and every other field, the visit
  count and the last visit among them, as the history row gave it.
\<close>

theorem mergeItems_unique_and_union:
  "distinct (map workId (mergeItems hs bs)) \<and>
   (\<forall>k. k \<in> workId ` set hs \<and> k \<in> workId ` set bs \<longrightarrow>
      filter (\<lambda>r. workId r = k) (mergeItems hs bs) =
        [(last (filter (\<lambda>r. workId r = k) hs))\<lparr>isBookmark := True\<rparr>])"
proof -
  let ?m = "foldl merge_bookmark (merge_history hs) bs"
  have k: "keyed ?m" by (simp add: keyed_foldl_bookmark keyed_merge_history)
  have "map workId (map snd ?m) = map fst ?m"
    using k by (auto simp: keyed_def)
  moreover have "distinct (map fst ?m)" using k by (simp add: keyed_def)
  ultimately have d: "distinct (map workId (mergeItems hs bs))"
    unfolding mergeItems_def Map_values_def by metis
  have u: "filter (\<lambda>r. workId r = k) (mergeItems hs bs) =
        [(last (filter (\<lambda>r. workId r = k) hs))\<lparr>isBookmark := True\<rparr>]"
    if "k \<in> workId ` set hs" "k \<in> workId ` set bs" for k
  proof -
    from that(1) have "map_of (merge_history hs) k = Some (last (filter (\<lambda>r. workId r = k) hs))"
      by (simp add: map_of_merge_history)
    from map_of_foldl_bookmark_present[OF this, of bs] that(2)
    have "map_of ?m k = Some ((last (filter (\<lambda>r. workId r = k) hs))\<lparr>isBookmark := True\<rparr>)"
      by simp
    from keyed_filter[OF k this] show ?thesis by (simp add: mergeItems_def Map_values_def)
  qed
  from d u show ?thesis by blast
qed

text \<open>An instance: work 2 is in the history and in the bookmarks; the bookmark row
  carries another visit count, which the merge ignores.\<close>

theorem mergeItems_witness:
  "''2'' \<in> workId ` set [a_work ''1'', a_work ''2'']
   \<and> ''2'' \<in> workId ` set [(a_work ''2'')\<lparr>isBookmark := True, visitCount := Some 7\<rparr>, a_work ''3'']
   \<and> distinct (map workId (mergeItems [a_work ''1'', a_work ''2'']
         [(a_work ''2'')\<lparr>isBookmark := True, visitCount := Some 7\<rparr>, a_work ''3'']))
   \<and> filter (\<lambda>r. workId r = ''2'') (mergeItems [a_work ''1'', a_work ''2'']
         [(a_work ''2'')\<lparr>isBookmark := True, visitCount := Some 7\<rparr>, a_work ''3''])
       = [(a_work ''2'')\<lparr>isBookmark := True\<rparr>]"
proof -
  let ?hs = "[a_work ''1'', a_work ''2'']"
  let ?bs = "[(a_work ''2'')\<lparr>isBookmark := True, visitCount := Some 7\<rparr>, a_work ''3'']"
  have h: "''2'' \<in> workId ` set ?hs" "''2'' \<in> workId ` set ?bs"
    by (simp_all add: a_work_def)
  have l: "last (filter (\<lambda>r. workId r = ''2'') ?hs) = a_work ''2''"
    by (simp add: a_work_def)
  note t = mergeItems_unique_and_union [of ?hs ?bs]
  from t h have "filter (\<lambda>r. workId r = ''2'') (mergeItems ?hs ?bs)
       = [(last (filter (\<lambda>r. workId r = ''2'') ?hs))\<lparr>isBookmark := True\<rparr>]"
    by blast
  with l have f: "filter (\<lambda>r. workId r = ''2'') (mergeItems ?hs ?bs)
       = [(a_work ''2'')\<lparr>isBookmark := True\<rparr>]"
    by (simp only:)
  from t have d: "distinct (map workId (mergeItems ?hs ?bs))" by blast
  show ?thesis using h d f by (simp only: simp_thms)
qed

section \<open>Counting\<close>

lemma countOccurrences_snoc:
  "countOccurrences (xs @ [x]) = count_item (countOccurrences xs) x"
  by (simp add: countOccurrences_def)

lemma Map_get_countOccurrences:
  "Map_get (countOccurrences xs) k =
     (if k \<noteq> [] \<and> k \<in> set xs then Some (count_list xs k) else None)"
proof (induction xs rule: rev_induct)
  case Nil
  then show ?case by (simp add: countOccurrences_def Map_get_def)
next
  case (snoc x xs)
  then show ?case
    by (auto simp: countOccurrences_snoc count_item_def Map_get_def map_of_Map_set
        count_list_0_iff)
qed

lemma Map_get_or_0_countOccurrences:
  "k \<noteq> [] \<Longrightarrow> Map_get_or_0 (countOccurrences xs) k = count_list xs k"
  by (simp add: Map_get_or_0_def Map_get_countOccurrences count_list_0_iff)

lemma count_list_filter: "count_list xs k = length (filter (\<lambda>x. x = k) xs)"
  by (induction xs) auto

section \<open>Rounding\<close>

lemma Math_round_upper: "of_int (Math_round x) \<le> x + 1 / 2"
  by (simp add: Math_round_def)

lemma Math_round_lower: "x - 1 / 2 < of_int (Math_round x)"
proof -
  have "x + 1 / 2 < of_int \<lfloor>x + 1 / 2\<rfloor> + 1" by linarith
  then show ?thesis by (simp add: Math_round_def)
qed

lemma percent_sum_bounds5:
  fixes a b c d e n :: nat
  assumes n: "n > 0" and le: "a + b + c + d + e \<le> n"
  shows "Math_round (of_nat a / of_nat n * 100) + Math_round (of_nat b / of_nat n * 100)
       + Math_round (of_nat c / of_nat n * 100) + Math_round (of_nat d / of_nat n * 100)
       + Math_round (of_nat e / of_nat n * 100) \<le> 102"
    and "a + b + c + d + e = n \<Longrightarrow>
       98 \<le> Math_round (of_nat a / of_nat n * 100) + Math_round (of_nat b / of_nat n * 100)
       + Math_round (of_nat c / of_nat n * 100) + Math_round (of_nat d / of_nat n * 100)
       + Math_round (of_nat e / of_nat n * 100)"
proof -
  let ?p = "\<lambda>k::nat. (of_nat k / of_nat n * 100 :: rat)"
  let ?S = "Math_round (?p a) + Math_round (?p b) + Math_round (?p c) + Math_round (?p d)
            + Math_round (?p e)"
  have split: "?p a + ?p b + ?p c + ?p d + ?p e = of_nat (a + b + c + d + e) / of_nat n * 100"
    by (simp add: add_divide_distrib distrib_right)
  define q :: rat where "q = of_nat (a + b + c + d + e) / of_nat n"
  have "(of_nat (a + b + c + d + e) :: rat) \<le> of_nat n" using le by (simp only: of_nat_le_iff)
  then have "q \<le> 1" using n by (simp add: q_def)
  then have "q * 100 \<le> 100" by linarith
  then have tot: "?p a + ?p b + ?p c + ?p d + ?p e \<le> 100" unfolding split q_def .
  have "(of_int ?S :: rat) \<le> ?p a + ?p b + ?p c + ?p d + ?p e + 5 / 2"
    using Math_round_upper[of "?p a"] Math_round_upper[of "?p b"] Math_round_upper[of "?p c"]
      Math_round_upper[of "?p d"] Math_round_upper[of "?p e"]
    by simp
  with tot have "(of_int ?S :: rat) \<le> 205 / 2" by linarith
  then have "(of_int (2 * ?S) :: rat) \<le> of_int 205" by simp
  then have "2 * ?S \<le> 205" by (simp only: of_int_le_iff)
  then show "?S \<le> 102" by presburger
  assume eq: "a + b + c + d + e = n"
  have "q = 1" using n eq by (simp add: q_def)
  then have "q * 100 = 100" by linarith
  then have tot': "?p a + ?p b + ?p c + ?p d + ?p e = 100" unfolding split q_def .
  have "?p a + ?p b + ?p c + ?p d + ?p e - 5 / 2 < (of_int ?S :: rat)"
    using Math_round_lower[of "?p a"] Math_round_lower[of "?p b"] Math_round_lower[of "?p c"]
      Math_round_lower[of "?p d"] Math_round_lower[of "?p e"]
    by simp
  with tot' have "(195 / 2 :: rat) < of_int ?S" by linarith
  then have "(of_int 195 :: rat) < of_int (2 * ?S)" by simp
  then have "195 < 2 * ?S" by (simp only: of_int_less_iff)
  then show "98 \<le> ?S" by presburger
qed

lemma percent_sum_bounds6:
  fixes a b c d e f n :: nat
  assumes n: "n > 0" and eq: "a + b + c + d + e + f = n"
  shows "\<bar>Math_round (of_nat a / of_nat n * 100) + Math_round (of_nat b / of_nat n * 100)
       + Math_round (of_nat c / of_nat n * 100) + Math_round (of_nat d / of_nat n * 100)
       + Math_round (of_nat e / of_nat n * 100) + Math_round (of_nat f / of_nat n * 100)
       - 100\<bar> \<le> 3"
proof -
  let ?p = "\<lambda>k::nat. (of_nat k / of_nat n * 100 :: rat)"
  let ?S = "Math_round (?p a) + Math_round (?p b) + Math_round (?p c) + Math_round (?p d)
            + Math_round (?p e) + Math_round (?p f)"
  have split: "?p a + ?p b + ?p c + ?p d + ?p e + ?p f
               = of_nat (a + b + c + d + e + f) / of_nat n * 100"
    by (simp add: add_divide_distrib distrib_right)
  define q :: rat where "q = of_nat (a + b + c + d + e + f) / of_nat n"
  have "q = 1" using n eq by (simp add: q_def)
  then have "q * 100 = 100" by linarith
  then have tot: "?p a + ?p b + ?p c + ?p d + ?p e + ?p f = 100" unfolding split q_def .
  have "(of_int ?S :: rat) \<le> ?p a + ?p b + ?p c + ?p d + ?p e + ?p f + 3"
    using Math_round_upper[of "?p a"] Math_round_upper[of "?p b"] Math_round_upper[of "?p c"]
      Math_round_upper[of "?p d"] Math_round_upper[of "?p e"] Math_round_upper[of "?p f"]
    by simp
  with tot have "(of_int ?S :: rat) \<le> of_int 103" by simp
  then have u: "?S \<le> 103" by (simp only: of_int_le_iff)
  have "?p a + ?p b + ?p c + ?p d + ?p e + ?p f - 3 < (of_int ?S :: rat)"
    using Math_round_lower[of "?p a"] Math_round_lower[of "?p b"] Math_round_lower[of "?p c"]
      Math_round_lower[of "?p d"] Math_round_lower[of "?p e"] Math_round_lower[of "?p f"]
    by simp
  with tot have "(of_int 97 :: rat) < of_int ?S" by simp
  then have "97 < ?S" by (simp only: of_int_less_iff)
  with u show ?thesis by linarith
qed

lemma floor_numeral_div:
  "\<lfloor>numeral a / numeral b :: rat\<rfloor> = numeral a div numeral b"
  using floor_divide_of_int_eq[of "numeral a" "numeral b", where ?'a = rat] by simp

section \<open>Length buckets\<close>

lemma lengthBuckets_total:
  "sum_list (map snd (lengthBuckets works)) = length works"
  by (induction works) (auto simp: lengthBuckets_def)

lemma lengthDistribution_percents:
  "length works > 0 \<Longrightarrow>
   \<bar>sum_list (map le_percent (lengthDistribution_of works)) - 100\<bar> \<le> 3"
proof -
  assume n: "length works > 0"
  have t: "sum_list (map snd (lengthBuckets works)) = length works" by (rule lengthBuckets_total)
  show ?thesis
    using percent_sum_bounds6[OF n, of "snd (lengthBuckets works ! 0)" "snd (lengthBuckets works ! 1)"
        "snd (lengthBuckets works ! 2)" "snd (lengthBuckets works ! 3)"
        "snd (lengthBuckets works ! 4)" "snd (lengthBuckets works ! 5)"] t
    by (simp add: lengthDistribution_of_def lengthBuckets_def)
qed

section \<open>Ratings\<close>

lemma rating_counts_le:
  "length (filter (\<lambda>w. f w = ''Explicit'') works)
   + length (filter (\<lambda>w. f w = ''Mature'') works)
   + length (filter (\<lambda>w. f w = ''Teen And Up Audiences'') works)
   + length (filter (\<lambda>w. f w = ''General Audiences'') works)
   + length (filter (\<lambda>w. f w = ''Not Rated'') works) \<le> length works"
  by (induction works) auto

lemma rating_counts_eq:
  "\<forall>w \<in> set works. f w \<in> set ratingOrder \<Longrightarrow>
   length (filter (\<lambda>w. f w = ''Explicit'') works)
   + length (filter (\<lambda>w. f w = ''Mature'') works)
   + length (filter (\<lambda>w. f w = ''Teen And Up Audiences'') works)
   + length (filter (\<lambda>w. f w = ''General Audiences'') works)
   + length (filter (\<lambda>w. f w = ''Not Rated'') works) = length works"
  by (induction works) (auto simp: ratingOrder_def)

lemma rating_count:
  "r \<noteq> [] \<Longrightarrow> Map_get_or_0 (ratingCounts works) r
     = length (filter (\<lambda>w. rating_or_Unknown w = r) works)"
  by (simp add: ratingCounts_def Map_get_or_0_countOccurrences count_list_filter filter_map o_def)

lemma ratingBreakdown_percents:
  assumes n: "length works > 0"
  shows "sum_list (map re_percent (ratingBreakdown_of works)) \<le> 102"
    and "\<forall>w \<in> set works. rating_or_Unknown w \<in> set ratingOrder \<Longrightarrow>
         98 \<le> sum_list (map re_percent (ratingBreakdown_of works))"
proof -
  let ?c = "\<lambda>r. length (filter (\<lambda>w. rating_or_Unknown w = r) works)"
  have s: "sum_list (map re_percent (ratingBreakdown_of works)) =
      Math_round (of_nat (?c ''Explicit'') / of_nat (length works) * 100)
    + Math_round (of_nat (?c ''Mature'') / of_nat (length works) * 100)
    + Math_round (of_nat (?c ''Teen And Up Audiences'') / of_nat (length works) * 100)
    + Math_round (of_nat (?c ''General Audiences'') / of_nat (length works) * 100)
    + Math_round (of_nat (?c ''Not Rated'') / of_nat (length works) * 100)"
    using n by (simp add: ratingBreakdown_of_def ratingOrder_def rating_count o_def)
  show "sum_list (map re_percent (ratingBreakdown_of works)) \<le> 102"
    unfolding s by (rule percent_sum_bounds5(1)[OF n rating_counts_le])
  assume "\<forall>w \<in> set works. rating_or_Unknown w \<in> set ratingOrder"
  then have e: "?c ''Explicit'' + ?c ''Mature'' + ?c ''Teen And Up Audiences''
      + ?c ''General Audiences'' + ?c ''Not Rated'' = length works"
    by (rule rating_counts_eq)
  show "98 \<le> sum_list (map re_percent (ratingBreakdown_of works))"
    unfolding s by (rule percent_sum_bounds5(2)[OF n rating_counts_le e])
qed

lemma analyze_Stats:
  "works \<noteq> [] \<Longrightarrow> analyze works \<noteq> IsEmpty
     \<and> ratingBreakdown (stats (analyze works)) = ratingBreakdown_of works
     \<and> lengthDistribution (stats (analyze works)) = lengthDistribution_of works"
  by (simp add: analyze_def basic_stats_def)

lemma analyze_v1_Stats:
  "works \<noteq> [] \<Longrightarrow> analyze_v1 random works \<noteq> IsEmpty
     \<and> ratingBreakdown (stats (analyze_v1 random works)) = ratingBreakdown_of works
     \<and> lengthDistribution (stats (analyze_v1 random works)) = lengthDistribution_of works"
  by (simp add: analyze_v1_def basic_stats_def)

text \<open>
  C5, as amended. For a non-empty collection \<open>analyze\<close> returns a populated object.
  Each percentage is rounded on its own, so the sums are not within 1 of 100 in general:
  the six length-distribution percentages sum to 100 within 3; the five rating-breakdown
  percentages never sum to more than 102, and they sum to at least 98 when every record
  carries one of the five listed ratings (a record with a missing or any other rating is
  counted in no entry). \<open>Math.round\<close> is taken on the exact quotient. Both revisions
  of \<open>analyze\<close> produce the same two breakdowns.
\<close>

theorem percent_sums_bounded:
  assumes "works \<noteq> []"
  shows "analyze works \<noteq> IsEmpty
    \<and> sum_list (map re_percent (ratingBreakdown (stats (analyze works)))) \<le> 102
    \<and> ((\<forall>w \<in> set works. rating_or_Unknown w \<in> set ratingOrder) \<longrightarrow>
         98 \<le> sum_list (map re_percent (ratingBreakdown (stats (analyze works)))))
    \<and> \<bar>sum_list (map le_percent (lengthDistribution (stats (analyze works)))) - 100\<bar> \<le> 3
    \<and> analyze_v1 random works \<noteq> IsEmpty
    \<and> ratingBreakdown (stats (analyze_v1 random works)) = ratingBreakdown (stats (analyze works))
    \<and> lengthDistribution (stats (analyze_v1 random works))
        = lengthDistribution (stats (analyze works))"
proof -
  from assms have n: "length works > 0" by simp
  show ?thesis
    using analyze_Stats[OF assms] analyze_v1_Stats[OF assms, of random]
      ratingBreakdown_percents[OF n] lengthDistribution_percents[OF n]
    by simp
qed


text \<open>The bounds at the eight sample works, all of them carrying a listed rating.\<close>

theorem percent_sums_bounded_witness:
  "works8 \<noteq> [] \<and> list_all (\<lambda>w. rating_or_Unknown w \<in> set ratingOrder) works8
    \<and> analyze works8 \<noteq> IsEmpty
    \<and> sum_list (map re_percent (ratingBreakdown (stats (analyze works8)))) \<le> 102
    \<and> 98 \<le> sum_list (map re_percent (ratingBreakdown (stats (analyze works8))))
    \<and> \<bar>sum_list (map le_percent (lengthDistribution (stats (analyze works8)))) - 100\<bar> \<le> 3"
proof -
  have n: "works8 \<noteq> []" by (simp add: works8_def)
  have r: "\<forall>w \<in> set works8. rating_or_Unknown w \<in> set ratingOrder"
    by (simp add: works8_def rated_def a_work_def rating_or_Unknown_def ratingOrder_def)
  from r have r': "list_all (\<lambda>w. rating_or_Unknown w \<in> set ratingOrder) works8"
    by (simp only: list_all_iff)
  from percent_sums_bounded[OF n] n r r' show ?thesis by blast
qed

lemma works8_ratings: "sum_list (map re_percent (ratingBreakdown_of works8)) = 102"
  by (simp add: ratingBreakdown_of_def ratingOrder_def rating_count works8_def rated_def
      a_work_def rating_or_Unknown_def Math_round_def floor_numeral_div)

lemma works8_lengths: "sum_list (map le_percent (lengthDistribution_of works8)) = 103"
  by (simp add: lengthDistribution_of_def lengthBuckets_def works8_def rated_def
      a_work_def wordCount_or_0_def Math_round_def floor_numeral_div)

text \<open>
  Counterexample to C5 as stated: for the eight sample works the rating percentages are
  50, 13, 13, 13, 13 and the length percentages 13, 13, 13, 13, 13, 38 (12.5 and 37.5 are
  rounded upwards), so the sums are 102 and 103.
\<close>

theorem percent_sums_counterexample:
  "works8 \<noteq> []
   \<and> sum_list (map re_percent (ratingBreakdown (stats (analyze works8)))) = 102
   \<and> sum_list (map le_percent (lengthDistribution (stats (analyze works8)))) = 103
   \<and> \<not> \<bar>sum_list (map re_percent (ratingBreakdown (stats (analyze works8)))) - 100\<bar> \<le> 1
   \<and> \<not> \<bar>sum_list (map le_percent (lengthDistribution (stats (analyze works8)))) - 100\<bar> \<le> 1
   \<and> sum_list (map re_percent (ratingBreakdown (stats (analyze_v1 0 works8)))) = 102
   \<and> sum_list (map le_percent (lengthDistribution (stats (analyze_v1 0 works8)))) = 103"
proof -
  have n: "works8 \<noteq> []" by (simp add: works8_def)
  show ?thesis
    using n analyze_Stats[OF n] analyze_v1_Stats[OF n, of 0] works8_ratings works8_lengths
    by simp
qed

section \<open>Mood statistics\<close>

lemma analyze_moodStats:
  "works \<noteq> [] \<Longrightarrow> analyze works \<noteq> IsEmpty
     \<and> moodStats (stats (analyze works)) = moodStats_of works"
  by (simp add: analyze_def basic_stats_def)

lemma analyze_v1_moodStats:
  "works \<noteq> [] \<Longrightarrow> analyze_v1 random works \<noteq> IsEmpty
     \<and> moodStats (stats (analyze_v1 random works)) = moodStats_v1 works"
  by (simp add: analyze_v1_def basic_stats_def)

text \<open>The two counts look at the mood-tagged works only, and one of them is positive
  exactly when some work is mood-tagged.\<close>

lemma mood_filter_counts:
  "fluffCount (filter (\<lambda>w. hasTag fluffTags w \<or> hasTag angstTags w) works) = fluffCount works"
  "angstCount (filter (\<lambda>w. hasTag fluffTags w \<or> hasTag angstTags w) works) = angstCount works"
  by (simp_all add: fluffCount_def angstCount_def conj_commute cong: conj_cong)

lemma mood_total_pos:
  "(\<exists>w \<in> set works. hasTag fluffTags w \<or> hasTag angstTags w)
     \<longleftrightarrow> fluffCount works + angstCount works > 0"
  by (auto simp: fluffCount_def angstCount_def filter_empty_conv)

text \<open>
  C7. For a non-empty collection with at least one work carrying a fluff tag or an angst
  tag, \<open>analyze\<close> (the current revision, in \<open>part_001\<close>) returns mood statistics whose
  counts are the numbers of works with a fluff tag and with an angst tag, whose
  \<open>fluffPercent\<close> and \<open>angstPercent\<close> add up to 100, and whose \<open>fluffPercent\<close> lies
  within one half of the share of the fluff count in the sum of the two counts. The
  works without a mood tag have no influence: the mood statistics of the whole
  collection are those of its mood-tagged works alone. \<open>preference\<close> is "Fluff" when the
  fluff count is strictly higher, "Angst" when the angst count is strictly higher, and
  "Balanced" otherwise.
\<close>

theorem moodStats_over_mood_tagged:
  assumes "works \<noteq> []" and "\<exists>w \<in> set works. hasTag fluffTags w \<or> hasTag angstTags w"
  shows "analyze works \<noteq> IsEmpty
    \<and> fluff (moodStats (stats (analyze works))) = length (filter (hasTag fluffTags) works)
    \<and> angst (moodStats (stats (analyze works))) = length (filter (hasTag angstTags) works)
    \<and> fluffPercent (moodStats (stats (analyze works)))
        + angstPercent (moodStats (stats (analyze works))) = 100
    \<and> \<bar>of_int (fluffPercent (moodStats (stats (analyze works))))
         - of_nat (length (filter (hasTag fluffTags) works))
           / of_nat (length (filter (hasTag fluffTags) works)
                     + length (filter (hasTag angstTags) works)) * (100 :: rat)\<bar> \<le> 1 / 2
    \<and> moodStats (stats (analyze works))
        = moodStats (stats (analyze
            (filter (\<lambda>w. hasTag fluffTags w \<or> hasTag angstTags w) works)))
    \<and> preference (moodStats (stats (analyze works)))
        = (if length (filter (hasTag fluffTags) works) > length (filter (hasTag angstTags) works)
           then ''Fluff''
           else if length (filter (hasTag angstTags) works)
                     > length (filter (hasTag fluffTags) works)
           then ''Angst'' else ''Balanced'')"
proof -
  let ?sub = "filter (\<lambda>w. hasTag fluffTags w \<or> hasTag angstTags w) works"
  let ?f = "fluffCount works" and ?a = "angstCount works"
  let ?x = "of_nat ?f / of_nat (?f + ?a) * (100 :: rat)"
  from assms(2) have pos: "?f + ?a > 0" by (simp add: mood_total_pos)
  from assms(2) have sub: "?sub \<noteq> []" by (auto simp: filter_empty_conv)
  have m: "moodStats (stats (analyze works)) = moodStats_of works"
    using analyze_moodStats[OF assms(1)] by simp
  have ms: "moodStats (stats (analyze ?sub)) = moodStats_of ?sub"
    using analyze_moodStats[OF sub] by simp
  have same: "moodStats_of ?sub = moodStats_of works"
    by (simp add: moodStats_of_def mood_filter_counts)
  have fp: "fluffPercent (moodStats_of works) = Math_round ?x"
    using pos by (simp add: moodStats_of_def Let_def)
  have "of_int (Math_round ?x) \<le> ?x + 1 / 2" by (rule Math_round_upper)
  moreover have "?x - 1 / 2 < of_int (Math_round ?x)" by (rule Math_round_lower)
  ultimately have near: "\<bar>of_int (Math_round ?x) - ?x\<bar> \<le> 1 / 2" by linarith
  have cnt: "fluff (moodStats_of works) = ?f" "angst (moodStats_of works) = ?a"
    by (simp_all add: moodStats_of_def Let_def)
  have sum: "fluffPercent (moodStats_of works) + angstPercent (moodStats_of works) = 100"
    using pos by (simp add: moodStats_of_def Let_def)
  have pref: "preference (moodStats_of works)
      = (if ?f > ?a then ''Fluff'' else if ?a > ?f then ''Angst'' else ''Balanced'')"
    by (simp add: moodStats_of_def Let_def mood_preference_def)
  from analyze_moodStats[OF assms(1)] have ne: "analyze works \<noteq> IsEmpty" by simp
  show ?thesis
    unfolding m ms same fp[symmetric, THEN sym] 
    using ne cnt sum pref near fp
    by (simp add: fluffCount_def angstCount_def)
qed

lemma mood_sample_counts:
  "length (filter (hasTag fluffTags) mood_sample) = 3"
  "length (filter (hasTag angstTags) mood_sample) = 1"
  "list_ex (\<lambda>w. hasTag fluffTags w \<or> hasTag angstTags w) mood_sample"
  "length mood_sample = 5"
  by code_simp+

text \<open>An instance: of five works three carry a fluff tag (one of them in lower case
  inside a longer tag, one together with an angst tag) and two carry no mood tag. The
  percentages are 75 and 25, not the 60 and 20 that the whole collection would give;
  3 / 4 * 100 is exact in floating point.\<close>

theorem moodStats_over_mood_tagged_witness:
  "mood_sample \<noteq> []
   \<and> list_ex (\<lambda>w. hasTag fluffTags w \<or> hasTag angstTags w) mood_sample
   \<and> length mood_sample = 5
   \<and> analyze mood_sample \<noteq> IsEmpty
   \<and> fluff (moodStats (stats (analyze mood_sample))) = 3
   \<and> angst (moodStats (stats (analyze mood_sample))) = 1
   \<and> fluffPercent (moodStats (stats (analyze mood_sample))) = 75
   \<and> angstPercent (moodStats (stats (analyze mood_sample))) = 25
   \<and> preference (moodStats (stats (analyze mood_sample))) = ''Fluff''"
proof -
  have n: "mood_sample \<noteq> []" using mood_sample_counts(4) by auto
  have x: "\<exists>w \<in> set mood_sample. hasTag fluffTags w \<or> hasTag angstTags w"
    using mood_sample_counts(3) by (simp add: list_ex_iff)
  note t = moodStats_over_mood_tagged [OF n x, unfolded mood_sample_counts(1,2)]
  from t have "\<bar>of_int (fluffPercent (moodStats (stats (analyze mood_sample))))
       - of_nat 3 / of_nat (3 + 1) * (100 :: rat)\<bar> \<le> 1 / 2"
    by blast
  then have fp: "\<bar>of_int (fluffPercent (moodStats (stats (analyze mood_sample)))) - (75 :: rat)\<bar> \<le> 1 / 2"
    by simp
  have fp75: "fluffPercent (moodStats (stats (analyze mood_sample))) = 75"
  proof -
    define q where "q = fluffPercent (moodStats (stats (analyze mood_sample)))"
    from fp have "\<bar>of_int q - (75 :: rat)\<bar> \<le> 1 / 2" by (simp add: q_def)
    then have "(of_int q :: rat) < of_int 76" "(of_int 74 :: rat) < of_int q" by linarith+
    then have "q < 76" "74 < q" by (simp_all only: of_int_less_iff)
    then show ?thesis by (simp add: q_def)
  qed
  from t have s: "fluffPercent (moodStats (stats (analyze mood_sample)))
        + angstPercent (moodStats (stats (analyze mood_sample))) = 100" by blast
  from s fp75 have ap: "angstPercent (moodStats (stats (analyze mood_sample))) = 25" by simp
  from t have r: "analyze mood_sample \<noteq> IsEmpty"
     "fluff (moodStats (stats (analyze mood_sample))) = 3"
     "angst (moodStats (stats (analyze mood_sample))) = 1" by blast+
  from t have "preference (moodStats (stats (analyze mood_sample)))
        = (if (3 :: nat) > 1 then ''Fluff'' else if (1 :: nat) > 3 then ''Angst'' else ''Balanced'')"
    by blast
  then have p: "preference (moodStats (stats (analyze mood_sample))) = ''Fluff''" by simp
  show ?thesis using n mood_sample_counts(3,4) r fp75 ap p by (simp only: simp_thms)
qed

text \<open>The earlier revision in \<open>src/analyzer.js\<close> takes both percentages over all works
  instead: for two works, the first tagged "Fluff" and the second untagged, it reports 50
  and 0 where the current revision reports 100 and 0. The counts and the preference are
  the same in both.\<close>

lemma floor_one_div: "\<lfloor>1 / numeral b :: rat\<rfloor> = 1 div numeral b"
  using floor_divide_of_int_eq[of 1 "numeral b", where ?'a = rat] by simp

lemma half_fluff_counts:
  "fluffCount [(a_work ''1'')\<lparr>freeformTags := [''Fluff'']\<rparr>, a_work ''2''] = 1"
  "angstCount [(a_work ''1'')\<lparr>freeformTags := [''Fluff'']\<rparr>, a_work ''2''] = 0"
  by (simp_all add: fluffCount_def angstCount_def hasTag_def a_work_def fluffTags_def
      angstTags_def toLowerCase_def)

lemma moodStats_v1_over_all_works:
  "analyze_v1 random [(a_work ''1'')\<lparr>freeformTags := [''Fluff'']\<rparr>, a_work ''2''] \<noteq> IsEmpty
   \<and> fluff (moodStats (stats (analyze_v1 random
         [(a_work ''1'')\<lparr>freeformTags := [''Fluff'']\<rparr>, a_work ''2'']))) = 1
   \<and> angst (moodStats (stats (analyze_v1 random
         [(a_work ''1'')\<lparr>freeformTags := [''Fluff'']\<rparr>, a_work ''2'']))) = 0
   \<and> fluffPercent (moodStats (stats (analyze_v1 random
         [(a_work ''1'')\<lparr>freeformTags := [''Fluff'']\<rparr>, a_work ''2'']))) = 50
   \<and> angstPercent (moodStats (stats (analyze_v1 random
         [(a_work ''1'')\<lparr>freeformTags := [''Fluff'']\<rparr>, a_work ''2'']))) = 0"
proof -
  let ?ws = "[(a_work ''1'')\<lparr>freeformTags := [''Fluff'']\<rparr>, a_work ''2'']"
  have n: "?ws \<noteq> []" by simp
  show ?thesis
    using analyze_v1_moodStats[OF n, of random]
    by (simp add: moodStats_v1_def half_fluff_counts Math_round_def floor_numeral_div floor_one_div)
qed

lemma moodStats_part_001_example:
  "fluffPercent (moodStats (stats (analyze
         [(a_work ''1'')\<lparr>freeformTags := [''Fluff'']\<rparr>, a_work ''2'']))) = 100
   \<and> angstPercent (moodStats (stats (analyze
         [(a_work ''1'')\<lparr>freeformTags := [''Fluff'']\<rparr>, a_work ''2'']))) = 0"
proof -
  let ?ws = "[(a_work ''1'')\<lparr>freeformTags := [''Fluff'']\<rparr>, a_work ''2'']"
  have n: "?ws \<noteq> []" by simp
  show ?thesis
    using analyze_moodStats[OF n]
    by (simp add: moodStats_of_def half_fluff_counts Math_round_def Let_def floor_numeral_div)
qed

section \<open>Bookmark statistics\<close>

lemma floor_half: "\<lfloor>1 / 2 :: rat\<rfloor> = 0"
  using floor_divide_of_int_eq[of 1 2, where ?'a = rat] by simp

lemma analyze_bookmarkStats:
  "works \<noteq> [] \<Longrightarrow> analyze works \<noteq> IsEmpty
     \<and> bookmarkStats (stats (analyze works)) = Some (bookmarkStats_of works)"
  by (simp add: analyze_def basic_stats_def)

lemma bookmarkedWorks_harvested:
  "\<forall>w \<in> set works. source w = None \<and> \<not> isBookmarked w \<Longrightarrow> bookmarkedWorks works = []"
  by (simp add: bookmarkedWorks_def filter_empty_conv)

lemma revisitedNotBookmarked_harvested:
  "\<forall>w \<in> set works. source w = None \<and> \<not> isBookmarked w \<Longrightarrow>
   revisitedNotBookmarked works =
     sort_key (\<lambda>w. - visitCount_or_0 w) (filter (\<lambda>w. visitCount_or_0 w \<ge> 2) works)"
proof -
  assume h: "\<forall>w \<in> set works. source w = None \<and> \<not> isBookmarked w"
  have "filter (\<lambda>w. visitCount_or_0 w \<ge> 2 \<and> \<not> isBookmarked w \<and> source w \<noteq> Some ''bookmark'') works
      = filter (\<lambda>w. visitCount_or_0 w \<ge> 2) works"
    by (rule filter_cong) (use h in auto)
  then show ?thesis by (simp add: revisitedNotBookmarked_def)
qed

lemma hd_sort_key_least:
  assumes "sort_key f xs = y # ys"
  shows "y \<in> set xs \<and> (\<forall>x \<in> set xs. f y \<le> f x)"
proof -
  have "sorted (map f (y # ys))" using sorted_sort_key[of f xs] assms by simp
  moreover have "set (y # ys) = set xs" using set_sort[of f xs] assms by simp
  ultimately show ?thesis by auto
qed

lemma sort_key_Nil_iff: "sort_key f xs = [] \<longleftrightarrow> xs = []"
  using length_sort[of f xs] by (metis length_0_conv)

text \<open>
  C9. The records that the harvester builds carry the flag \<open>isBookmark\<close> and neither
  \<open>source\<close> nor \<open>isBookmarked\<close>, the two properties that the bookmark statistics read.
  For a non-empty collection of such records \<open>analyze\<close> reports no bookmarks and a
  bookmark ratio of 0, the personality "dangerous", and as secret favourite the first
  record, in the order of a stable sort by descending visit count, among all records
  visited at least twice: a record of the highest visit count, whatever its
  \<open>isBookmark\<close> flag; none when no record was visited twice.
\<close>

theorem bookmarkStats_of_harvested:
  assumes "works \<noteq> []" and "\<forall>w \<in> set works. source w = None \<and> \<not> isBookmarked w"
  shows "analyze works \<noteq> IsEmpty \<and>
    (\<exists>b. bookmarkStats (stats (analyze works)) = Some b
       \<and> totalBookmarks b = 0 \<and> bookmarkRatio b = 0
       \<and> p_type (bookmark_personality b) = ''dangerous''
       \<and> secretFavorite b =
           (case sort_key (\<lambda>w. - visitCount_or_0 w) (filter (\<lambda>w. visitCount_or_0 w \<ge> 2) works)
            of [] \<Rightarrow> None | w # ws \<Rightarrow> Some w)
       \<and> (secretFavorite b = None \<longleftrightarrow> (\<forall>w \<in> set works. visitCount_or_0 w < 2))
       \<and> (\<forall>w. secretFavorite b = Some w \<longrightarrow>
             w \<in> set works \<and> visitCount_or_0 w \<ge> 2
             \<and> (\<forall>w' \<in> set works. visitCount_or_0 w' \<le> visitCount_or_0 w)))"
proof -
  let ?rev = "filter (\<lambda>w. visitCount_or_0 w \<ge> 2) works"
  let ?srt = "sort_key (\<lambda>w. - visitCount_or_0 w) ?rev"
  let ?b = "bookmarkStats_of works"
  have bw: "bookmarkedWorks works = []" by (rule bookmarkedWorks_harvested[OF assms(2)])
  have rn: "revisitedNotBookmarked works = ?srt" by (rule revisitedNotBookmarked_harvested[OF assms(2)])
  have t: "totalBookmarks ?b = 0" "bookmarkRatio ?b = 0"
    "p_type (bookmark_personality ?b) = ''dangerous''"
    using assms(1) by (simp_all add: bookmarkStats_of_def bw Let_def Math_round_def personality_of_def floor_half)
  have sf: "secretFavorite ?b = (case ?srt of [] \<Rightarrow> None | w # ws \<Rightarrow> Some w)"
    by (simp add: bookmarkStats_of_def rn Let_def)
  have none: "secretFavorite ?b = None \<longleftrightarrow> (\<forall>w \<in> set works. visitCount_or_0 w < 2)"
  proof -
    have "secretFavorite ?b = None \<longleftrightarrow> ?srt = []" unfolding sf by (simp split: list.splits)
    also have "\<dots> \<longleftrightarrow> ?rev = []" by (rule sort_key_Nil_iff)
    also have "\<dots> \<longleftrightarrow> (\<forall>w \<in> set works. visitCount_or_0 w < 2)"
      by (auto simp: filter_empty_conv not_le)
    finally show ?thesis .
  qed
  have some: "w \<in> set works \<and> visitCount_or_0 w \<ge> 2
             \<and> (\<forall>w' \<in> set works. visitCount_or_0 w' \<le> visitCount_or_0 w)"
    if "secretFavorite ?b = Some w" for w
  proof -
    from that obtain ws where s: "?srt = w # ws" unfolding sf by (auto split: list.splits)
    from hd_sort_key_least[OF s]
    have m: "w \<in> set ?rev" and le: "\<forall>x \<in> set ?rev. visitCount_or_0 x \<le> visitCount_or_0 w"
      by auto
    from m have w: "w \<in> set works" "visitCount_or_0 w \<ge> 2" by auto
    have "visitCount_or_0 w' \<le> visitCount_or_0 w" if "w' \<in> set works" for w'
    proof (cases "visitCount_or_0 w' \<ge> 2")
      case True
      with that le show ?thesis by simp
    next
      case False
      with w(2) show ?thesis by linarith
    qed
    with w show ?thesis by blast
  qed
  have some': "\<forall>w. secretFavorite ?b = Some w \<longrightarrow>
             w \<in> set works \<and> visitCount_or_0 w \<ge> 2
             \<and> (\<forall>w' \<in> set works. visitCount_or_0 w' \<le> visitCount_or_0 w)"
    using some by blast
  from analyze_bookmarkStats[OF assms(1)]
  have a: "analyze works \<noteq> IsEmpty"
    and b: "bookmarkStats (stats (analyze works)) = Some ?b" by simp_all
  show ?thesis
    by (rule conjI[OF a], rule exI[of _ ?b], intro conjI)
       (rule b, rule t(1), rule t(2), rule t(3), rule sf, rule none, rule some')
qed


text \<open>An instance: a history record visited three times that the merge step flagged as
  bookmarked, and a record visited once. The flagged record is the secret favourite.\<close>

theorem bookmarkStats_of_harvested_witness:
  "[(a_work ''1'')\<lparr>visitCount := Some 3, isBookmark := True\<rparr>, a_work ''2''] \<noteq> []
   \<and> list_all (\<lambda>w. source w = None \<and> \<not> isBookmarked w)
         [(a_work ''1'')\<lparr>visitCount := Some 3, isBookmark := True\<rparr>, a_work ''2'']
   \<and> (\<exists>b. bookmarkStats (stats (analyze
              [(a_work ''1'')\<lparr>visitCount := Some 3, isBookmark := True\<rparr>, a_work ''2''])) = Some b
          \<and> totalBookmarks b = 0 \<and> bookmarkRatio b = 0
          \<and> p_type (bookmark_personality b) = ''dangerous''
          \<and> secretFavorite b = Some ((a_work ''1'')\<lparr>visitCount := Some 3, isBookmark := True\<rparr>))"
proof -
  let ?ws = "[(a_work ''1'')\<lparr>visitCount := Some 3, isBookmark := True\<rparr>, a_work ''2'']"
  have n: "?ws \<noteq> []" by simp
  have h: "\<forall>w \<in> set ?ws. source w = None \<and> \<not> isBookmarked w" by (simp add: a_work_def)
  have e: "(case sort_key (\<lambda>w. - visitCount_or_0 w) (filter (\<lambda>w. visitCount_or_0 w \<ge> 2) ?ws)
            of [] \<Rightarrow> None | w # ws \<Rightarrow> Some w)
           = Some ((a_work ''1'')\<lparr>visitCount := Some 3, isBookmark := True\<rparr>)"
    by (simp add: a_work_def visitCount_or_0_def)
  from bookmarkStats_of_harvested[OF n h] obtain b where
    "bookmarkStats (stats (analyze ?ws)) = Some b" "totalBookmarks b = 0" "bookmarkRatio b = 0"
    "p_type (bookmark_personality b) = ''dangerous''"
    "secretFavorite b =
       (case sort_key (\<lambda>w. - visitCount_or_0 w) (filter (\<lambda>w. visitCount_or_0 w \<ge> 2) ?ws)
        of [] \<Rightarrow> None | w # ws \<Rightarrow> Some w)"
    by blast
  with e n h show ?thesis by (auto simp: list_all_iff)
qed

text \<open>The harvester's records qualify: the parsers never set \<open>source\<close> or
  \<open>isBookmarked\<close>, and neither the merge nor the enrichment touches them.\<close>

lemma parseHistoryItem_harvested:
  "parseHistoryItem item = Some w \<Longrightarrow> source w = None \<and> \<not> isBookmarked w"
  by (auto simp: parseHistoryItem_def split: option.splits)

lemma parseBookmarkItem_harvested:
  "parseBookmarkItem item = Some w \<Longrightarrow> source w = None \<and> \<not> isBookmarked w \<and> isBookmark w"
  by (auto simp: parseBookmarkItem_def split: option.splits)

lemma Object_assign_harvested:
  "source (Object_assign w m) = source w \<and> isBookmarked (Object_assign w m) = isBookmarked w
   \<and> isBookmark (Object_assign w m) = isBookmark w"
  by (simp add: Object_assign_def)

lemma merge_bookmark_harvested:
  assumes "\<forall>(k, v) \<in> set m. source v = None \<and> \<not> isBookmarked v"
    and "source b = None \<and> \<not> isBookmarked b"
  shows "\<forall>(k, v) \<in> set (merge_bookmark m b). source v = None \<and> \<not> isBookmarked v"
proof -
  have "set (Map_set m k v) \<subseteq> insert (k, v) (set m)" for k v by (rule set_Map_set)
  then show ?thesis
    using assms
    by (fastforce simp: merge_bookmark_def Map_get_def Map_has_def split: option.splits
        dest!: map_of_SomeD)
qed

lemma mergeItems_harvested:
  assumes "\<forall>w \<in> set hs. source w = None \<and> \<not> isBookmarked w"
    and "\<forall>w \<in> set bs. source w = None \<and> \<not> isBookmarked w"
  shows "\<forall>w \<in> set (mergeItems hs bs). source w = None \<and> \<not> isBookmarked w"
proof -
  have h: "\<forall>(k, v) \<in> set (merge_history hs). source v = None \<and> \<not> isBookmarked v"
    using assms(1)
  proof (induction hs rule: rev_induct)
    case Nil
    then show ?case by (simp add: merge_history_def)
  next
    case (snoc x xs)
    have "set (Map_set (merge_history xs) (workId x) x) \<subseteq> insert (workId x, x) (set (merge_history xs))"
      by (rule set_Map_set)
    with snoc show ?case by (fastforce simp: merge_history_def)
  qed
  have "\<forall>(k, v) \<in> set (foldl merge_bookmark m bs). source v = None \<and> \<not> isBookmarked v"
    if "\<forall>(k, v) \<in> set m. source v = None \<and> \<not> isBookmarked v" for m
    using that assms(2)
  proof (induction bs arbitrary: m)
    case Nil
    then show ?case by simp
  next
    case (Cons b bs)
    from Cons.prems have "\<forall>(k, v) \<in> set (merge_bookmark m b). source v = None \<and> \<not> isBookmarked v"
      by (intro merge_bookmark_harvested) auto
    with Cons show ?case by simp
  qed
  from this[OF h] show ?thesis by (auto simp: mergeItems_def Map_values_def)
qed

section \<open>The rarest pair\<close>









section \<open>Suspensions\<close>

lemma foldl_apply_call_quiet:
  "RequestCancel \<notin> set calls \<Longrightarrow> foldl apply_call False calls = False"
proof (induction calls)
  case Nil
  then show ?case by simp
next
  case (Cons c calls)
  then show ?case by (cases c) simp_all
qed

lemma foldl_apply_call_isolated:
  "ResetCancel \<notin> set calls \<Longrightarrow>
   foldl apply_call flag calls = (flag \<or> RequestCancel \<in> set calls)"
proof (induction calls arbitrary: flag)
  case Nil
  then show ?case by simp
next
  case (Cons c calls)
  then show ?case by (cases c) auto
qed

lemma onProgress_state [simp]:
  "tick (onProgress p s) = tick s" "cancelRequested (onProgress p s) = cancelRequested s"
  by (simp_all add: onProgress_def)

lemma suspend_tick [simp]: "tick (suspend e s) = Suc (tick s)"
  by (simp add: suspend_def)

lemma suspend_quiet:
  "\<not> cancelRequested s \<Longrightarrow> \<not> cancelDuring e (tick s) \<Longrightarrow> \<not> cancelRequested (suspend e s)"
  by (simp add: suspend_def cancelDuring_def foldl_apply_call_quiet)

lemma suspend_isolated:
  "isolated e \<Longrightarrow>
   cancelRequested (suspend e s) = (cancelRequested s \<or> cancelDuring e (tick s))"
  by (simp add: suspend_def cancelDuring_def isolated_def foldl_apply_call_isolated)

lemma suspend_left_alone [simp]:
  "cancelRequested (suspend (left_alone e) s) = cancelRequested s"
  by (simp add: suspend_def left_alone_def)

lemma delay_tick [simp]: "tick (delay e ms s) = Suc (tick s)"
  by (simp add: delay_def)

lemma delay_quiet:
  "\<not> cancelRequested s \<Longrightarrow> \<not> cancelDuring e (tick s) \<Longrightarrow> \<not> cancelRequested (delay e ms s)"
  by (simp add: delay_def suspend_quiet)

lemma delay_isolated:
  "isolated e \<Longrightarrow>
   cancelRequested (delay e ms s) = (cancelRequested s \<or> cancelDuring e (tick s))"
  by (simp add: delay_def suspend_isolated)

lemma delay_left_alone [simp]:
  "cancelRequested (delay (left_alone e) ms s) = cancelRequested s"
  by (simp add: delay_def)

lemma fetchUrl_state:
  "electronAPI_fetchUrl e url s = (r, s1) \<Longrightarrow>
   r = fetchUrl e (tick s) url \<and> tick s1 = Suc (tick s)
   \<and> (isolated e \<longrightarrow> cancelRequested s1 = (cancelRequested s \<or> cancelDuring e (tick s)))
   \<and> (\<not> cancelRequested s \<longrightarrow> \<not> cancelDuring e (tick s) \<longrightarrow> \<not> cancelRequested s1)"
  by (auto simp: electronAPI_fetchUrl_def suspend_isolated suspend_quiet)

lemma metadata_at_eq:
  "metadata_at e n wid =
     (if \<not> success (detail_page e n wid)
      then Inl (''Failed to fetch work '' @ wid @ '': '' @ error (detail_page e n wid))
      else case workPage e wid (html (detail_page e n wid)) of
             Inl thrown \<Rightarrow> Inl thrown
           | Inr m \<Rightarrow> Inr (m\<lparr>m_workId := wid\<rparr>))"
  by (simp add: metadata_at_def fetchWorkMetadata_def electronAPI_fetchUrl_def detail_page_def
      AO3_BASE_URL_def split: sum.splits)

lemma isl_metadata_at: "isl (metadata_at e n wid) = detail_fails e n wid"
  by (simp add: metadata_at_eq detail_fails_def split: sum.splits)

lemma fetchWorkMetadata_state:
  "fetchWorkMetadata e wid s = (r, s1) \<Longrightarrow>
   r = metadata_at e (tick s) wid \<and> tick s1 = Suc (tick s)
   \<and> (isolated e \<longrightarrow> cancelRequested s1 = (cancelRequested s \<or> cancelDuring e (tick s)))
   \<and> (\<not> cancelRequested s \<longrightarrow> \<not> cancelDuring e (tick s) \<longrightarrow> \<not> cancelRequested s1)"
  by (auto simp: fetchWorkMetadata_def metadata_at_def electronAPI_fetchUrl_def
      suspend_isolated suspend_quiet split: if_splits sum.splits)

lemma quiet_Suc: "quiet e (Suc n) \<longleftrightarrow> quiet e n \<and> \<not> cancelDuring e n"
  by (auto simp: quiet_def less_Suc_eq)

lemma flag_exact_step:
  "flag_exact e s \<Longrightarrow> tick s1 = Suc (tick s) \<Longrightarrow>
   cancelRequested s1 = (cancelRequested s \<or> cancelDuring e (tick s)) \<Longrightarrow> flag_exact e s1"
  by (auto simp: flag_exact_def quiet_Suc)

lemma flag_exact_onProgress [simp]: "flag_exact e (onProgress p s) = flag_exact e s"
  by (simp add: flag_exact_def)

lemma flag_exact_delay: "isolated e \<Longrightarrow> flag_exact e s \<Longrightarrow> flag_exact e (delay e ms s)"
  by (rule flag_exact_step) (simp_all add: delay_isolated)

section \<open>Enrichment\<close>

lemma length_enriched_from [simp]: "length (enriched_from e n items) = length items"
  by (induction items arbitrary: n) auto

lemma nth_enriched_from:
  "i < length items \<Longrightarrow>
   enriched_from e n items ! i =
     (case metadata_at e (n + 2 * i) (workId (items ! i)) of
        Inl thrown \<Rightarrow> items ! i
      | Inr m \<Rightarrow> Object_assign (items ! i) m)"
proof (induction items arbitrary: n i)
  case Nil
  then show ?case by simp
next
  case (Cons item rest)
  show ?case
  proof (cases i)
    case 0
    then show ?thesis by (simp split: sum.splits)
  next
    case (Suc j)
    with Cons.prems have "j < length rest" by simp
    from Cons.IH[OF this, of "n + 2"] Suc show ?thesis
      by (simp add: add.assoc split: sum.splits)
  qed
qed

lemma failures_from_card:
  "failures_from e n items =
     card {i. i < length items \<and> isl (metadata_at e (n + 2 * i) (workId (items ! i)))}"
proof (induction items arbitrary: n)
  case Nil
  then show ?case by simp
next
  case (Cons item rest)
  let ?F = "\<lambda>i. isl (metadata_at e (n + 2 * i) (workId ((item # rest) ! i)))"
  let ?R = "{j. j < length rest \<and> isl (metadata_at e (n + 2 + 2 * j) (workId (rest ! j)))}"
  have fin: "finite ?R" by simp
  have split: "{i. i < length (item # rest) \<and> ?F i} = (if ?F 0 then {0} else {}) \<union> Suc ` ?R"
  proof (rule set_eqI)
    fix i
    show "i \<in> {i. i < length (item # rest) \<and> ?F i}
        \<longleftrightarrow> i \<in> (if ?F 0 then {0} else {}) \<union> Suc ` ?R"
      by (cases i) (auto simp: add.assoc)
  qed
  have "card ((if ?F 0 then {0} else {}) \<union> Suc ` ?R)
      = card (if ?F 0 then {0::nat} else {}) + card (Suc ` ?R)"
    by (rule card_Un_disjoint) (use fin in auto)
  also have "card (Suc ` ?R) = card ?R" by (rule card_image) simp
  finally show ?case
    unfolding split using Cons.IH[of "n + 2"] by simp
qed

text \<open>The record that \<open>Object.assign\<close> leaves, field by field: the work id assigned is
  the one the item had.\<close>

lemma Object_assign_fields:
  "Object_assign item (m\<lparr>m_workId := workId item\<rparr>) =
     item\<lparr> rating := Some (m_rating m), warnings := m_warnings m, fandoms := m_fandoms m,
           relationships := m_relationships m, characters := m_characters m,
           freeformTags := m_freeformTags m, wordCount := m_wordCount m,
           chapters := m_chapters m, kudos := m_kudos m, bookmarks := m_bookmarks m,
           hits := m_hits m, datePublished := m_datePublished m,
           dateUpdated := m_dateUpdated m, complete := m_complete m \<rparr>"
  by (simp add: Object_assign_def)

lemma enriched_item:
  "(case metadata_at e n (workId item) of
        Inl thrown \<Rightarrow> item
      | Inr m \<Rightarrow> Object_assign item m) =
   (if \<not> success (detail_page e n (workId item)) then item
    else case workPage e (workId item) (html (detail_page e n (workId item))) of
           Inl thrown \<Rightarrow> item
         | Inr m \<Rightarrow>
             item\<lparr> rating := Some (m_rating m), warnings := m_warnings m,
                   fandoms := m_fandoms m, relationships := m_relationships m,
                   characters := m_characters m, freeformTags := m_freeformTags m,
                   wordCount := m_wordCount m, chapters := m_chapters m, kudos := m_kudos m,
                   bookmarks := m_bookmarks m, hits := m_hits m,
                   datePublished := m_datePublished m, dateUpdated := m_dateUpdated m,
                   complete := m_complete m \<rparr>)"
  by (simp add: metadata_at_eq Object_assign_fields split: sum.splits)

text \<open>The loop throws nothing but the cancellation error, and throws it only when it
  finds the flag set.\<close>

lemma enrichItems_throws:
  "enrichItems e total0 rest visited completed failed s = (Inl thrown, s') \<Longrightarrow>
   thrown = cancelled_message \<and> cancelRequested s'"
proof (induction rest arbitrary: visited completed failed s)
  case Nil
  then show ?case by simp
next
  case (Cons item rest)
  show ?case
  proof (cases "isCancelled s")
    case True
    with Cons.prems show ?thesis by (simp add: isCancelled_def)
  next
    case False
    with Cons.prems Cons.IH show ?thesis
      by (auto split: prod.splits sum.splits)
  qed
qed

lemma enrichItems_run:
  "\<not> cancelRequested s \<Longrightarrow> completed + length rest = total0 \<Longrightarrow>
   (\<And>k. k + 2 < 2 * length rest \<Longrightarrow> \<not> cancelDuring e (tick s + k)) \<Longrightarrow>
     \<exists>s'. enrichItems e total0 rest visited completed failed s
            = (Inr (visited @ enriched_from e (tick s) rest,
                    failed + failures_from e (tick s) rest), s')"
proof (induction rest arbitrary: visited completed failed s)
  case Nil
  then show ?case by simp
next
  case (Cons item rest)
  let ?p = "\<lparr> phase = ''metadata'',
              message = ''Analyzing works... '' @ show_nat (completed + 1) @ ''/'' @ show_nat total0,
              detail = Some ([CHR 0x22] @ title item @ [CHR 0x22]),
              percent = 30 + (of_nat completed / of_nat total0) * 60,
              failedCount = Some failed \<rparr>"
  obtain x s1 where f: "fetchWorkMetadata e (workId item) (onProgress ?p s) = (x, s1)"
    by (cases "fetchWorkMetadata e (workId item) (onProgress ?p s)")
  note st = fetchWorkMetadata_state[OF f]
  from st have x: "x = metadata_at e (tick s) (workId item)" and t1: "tick s1 = Suc (tick s)"
    by simp_all
  let ?s2 = "if completed + 1 < total0 then delay e RATE_LIMIT_MS s1 else s1"
  have len: "(completed + 1) + length rest = total0" using Cons.prems(2) by simp
  have step: "\<exists>s'. enrichItems e total0 rest v (completed + 1) fl ?s2
            = (Inr (v @ enriched_from e (tick s + 2) rest,
                    fl + failures_from e (tick s + 2) rest), s')" for v fl
  proof (cases rest)
    case Nil
    then show ?thesis by simp
  next
    case (Cons item' rest')
    with len have more: "completed + 1 < total0" by simp
    from Cons Cons.prems(3)[of 0] have q0: "\<not> cancelDuring e (tick s)" by simp
    from Cons Cons.prems(3)[of 1] have q1: "\<not> cancelDuring e (Suc (tick s))" by simp
    from st q0 Cons.prems(1) have c1: "\<not> cancelRequested s1" by simp
    from c1 q1 t1 have c2: "\<not> cancelRequested ?s2" by (simp add: delay_quiet)
    have t2: "tick ?s2 = tick s + 2" using more t1 by simp
    have q: "\<not> cancelDuring e (tick ?s2 + k)" if "k + 2 < 2 * length rest" for k
      using Cons.prems(3)[of "k + 2"] that unfolding t2 by (simp add: add.assoc)
    from Cons.IH[OF c2 len q, of v fl] show ?thesis unfolding t2 by simp
  qed
  show ?case
  proof (cases x)
    case (Inl thrown)
    from step[of "visited @ [item]" "failed + 1"] Inl f x Cons.prems(1) show ?thesis
      by (auto simp: isCancelled_def)
  next
    case (Inr m)
    from step[of "visited @ [Object_assign item m]" failed] Inr f x Cons.prems(1) show ?thesis
      by (auto simp: isCancelled_def)
  qed
qed

text \<open>
  C3, with the condition it needs. Item \<open>i\<close> is fetched at suspension
  \<open>tick s + 2 * i\<close> (a fetch and a delay pass for each earlier item); its detail fetch
  fails when the answer has \<open>success: false\<close> or reading the work page throws.

  Whatever the input and the environment, the only error that \<open>enrichWithMetadata\<close>
  throws is "Scraping cancelled by user", with the flag set: a failing detail fetch never
  aborts the batch.

  If the flag is clear at the start and \<open>requestCancel()\<close> is not called before the
  last item's check (during the \<open>2 * length items - 2\<close> suspensions that precede it),
  \<open>enrichWithMetadata\<close> returns normally. The failure count is the number of items
  whose detail fetch fails. Each of those items is returned as it was. Every other item is
  returned with the fourteen fields read from its work page assigned: rating, warnings,
  fandoms, relationships, characters, freeform tags, word count, chapters, kudos,
  bookmarks, hits, the two dates and the completion status; the work id assigned is the
  one it had.
\<close>

theorem enrichWithMetadata_partial_failures:
  "(\<forall>thrown s'. enrichWithMetadata e items s = (Inl thrown, s')
       \<longrightarrow> thrown = ''Scraping cancelled by user'' \<and> cancelRequested s')
   \<and> (\<not> cancelRequested s
        \<and> (\<forall>k. k + 2 < 2 * length items \<longrightarrow> \<not> cancelDuring e (tick s + k)) \<longrightarrow>
      (\<exists>enriched s'.
         enrichWithMetadata e items s =
           (Inr (enriched,
                 card {i. i < length items
                          \<and> detail_fails e (tick s + 2 * i) (workId (items ! i))}), s')
         \<and> length enriched = length items
         \<and> (\<forall>i < length items.
              enriched ! i =
                (if \<not> success (detail_page e (tick s + 2 * i) (workId (items ! i)))
                 then items ! i
                 else case workPage e (workId (items ! i))
                             (html (detail_page e (tick s + 2 * i) (workId (items ! i)))) of
                        Inl thrown \<Rightarrow> items ! i
                      | Inr m \<Rightarrow>
                          (items ! i)
                            \<lparr> rating := Some (m_rating m), warnings := m_warnings m,
                              fandoms := m_fandoms m, relationships := m_relationships m,
                              characters := m_characters m,
                              freeformTags := m_freeformTags m,
                              wordCount := m_wordCount m, chapters := m_chapters m,
                              kudos := m_kudos m, bookmarks := m_bookmarks m,
                              hits := m_hits m, datePublished := m_datePublished m,
                              dateUpdated := m_dateUpdated m,
                              complete := m_complete m \<rparr>))))"
proof (rule conjI; rule allI impI)
  fix thrown
  show "\<forall>s'. enrichWithMetadata e items s = (Inl thrown, s')
       \<longrightarrow> thrown = ''Scraping cancelled by user'' \<and> cancelRequested s'"
    using enrichItems_throws[of e "length items" items "[]" 0 0 s thrown]
    by (simp add: enrichWithMetadata_def cancelled_message_def)
next
  assume a: "\<not> cancelRequested s
        \<and> (\<forall>k. k + 2 < 2 * length items \<longrightarrow> \<not> cancelDuring e (tick s + k))"
  then have c: "\<not> cancelRequested s"
    and q: "\<And>k. k + 2 < 2 * length items \<Longrightarrow> \<not> cancelDuring e (tick s + k)" by simp_all
  from enrichItems_run[OF c _ q, of 0 items "length items" "[]" 0]
  obtain s' where
    "enrichWithMetadata e items s
       = (Inr (enriched_from e (tick s) items, failures_from e (tick s) items), s')"
    by (auto simp: enrichWithMetadata_def)
  then show "\<exists>enriched s'.
         enrichWithMetadata e items s =
           (Inr (enriched,
                 card {i. i < length items
                          \<and> detail_fails e (tick s + 2 * i) (workId (items ! i))}), s')
         \<and> length enriched = length items
         \<and> (\<forall>i < length items.
              enriched ! i =
                (if \<not> success (detail_page e (tick s + 2 * i) (workId (items ! i)))
                 then items ! i
                 else case workPage e (workId (items ! i))
                             (html (detail_page e (tick s + 2 * i) (workId (items ! i)))) of
                        Inl thrown \<Rightarrow> items ! i
                      | Inr m \<Rightarrow>
                          (items ! i)
                            \<lparr> rating := Some (m_rating m), warnings := m_warnings m,
                              fandoms := m_fandoms m, relationships := m_relationships m,
                              characters := m_characters m,
                              freeformTags := m_freeformTags m,
                              wordCount := m_wordCount m, chapters := m_chapters m,
                              kudos := m_kudos m, bookmarks := m_bookmarks m,
                              hits := m_hits m, datePublished := m_datePublished m,
                              dateUpdated := m_dateUpdated m,
                              complete := m_complete m \<rparr>))"
    by (intro exI[of _ "enriched_from e (tick s) items"] exI[of _ s'])
       (simp add: failures_from_card nth_enriched_from isl_metadata_at enriched_item)
qed


lemma flaky_details:
  "detail_page flaky_account 0 ''1''
     = \<lparr> success = True, html = ''https://archiveofourown.org/works/1?view_adult=true'',
         error = ''timeout'' \<rparr>"
  "\<not> success (detail_page flaky_account 2 ''2'')"
  "detail_page flaky_account 4 ''3''
     = \<lparr> success = True, html = ''https://archiveofourown.org/works/3?view_adult=true'',
         error = ''timeout'' \<rparr>"
  "workPage flaky_account ''1'' page = Inr a_metadata"
  "workPage flaky_account ''3'' page = Inl ''TypeError''"
  by (simp_all add: detail_page_def flaky_account_def quiet_account_def)

lemma flaky_fails:
  "\<not> detail_fails flaky_account 0 ''1''"
  "detail_fails flaky_account 2 ''2''"
  "detail_fails flaky_account 4 ''3''"
  by (simp_all add: detail_fails_def flaky_details)

lemma flaky_calls:
  "cancelDuring flaky_account n \<longleftrightarrow> n = 4"
  by (simp add: cancelDuring_def flaky_account_def quiet_account_def)

text \<open>An instance: three items; the detail fetch of the second is refused and the page
  of the third cannot be read. The first is returned with the fields of its work page,
  the other two as they were, and two failures are counted. \<open>requestCancel()\<close> is called
  during the last detail fetch, after the last check.\<close>

theorem enrichWithMetadata_witness:
  "\<not> cancelRequested start
   \<and> list_all (\<lambda>k. \<not> cancelDuring flaky_account (tick start + k)) [0, 1, 2, 3]
   \<and> cancelDuring flaky_account 4
   \<and> (\<exists>s'. enrichWithMetadata flaky_account [a_work ''1'', a_work ''2'', a_work ''3''] start =
         (Inr ([(a_work ''1'')
                  \<lparr> rating := Some ''General Audiences'', wordCount := Some 1000,
                    chapters := Some ''1/1'', kudos := Some 10, bookmarks := Some 1,
                    hits := Some 100, datePublished := Some ''2024-03-15'',
                    complete := Some True \<rparr>,
                a_work ''2'', a_work ''3''], 2),
          s'))"
proof -
  let ?ws = "[a_work ''1'', a_work ''2'', a_work ''3'']"
  let ?e = flaky_account
  have c: "\<not> cancelRequested start" by (simp add: start_def)
  have t: "tick start = 0" by (simp add: start_def)
  have q: "\<forall>k. k + 2 < 2 * length ?ws \<longrightarrow> \<not> cancelDuring ?e (tick start + k)"
    by (simp add: flaky_calls t)
  have w: "workId (a_work ''1'') = ''1''" "workId (a_work ''2'') = ''2''"
    "workId (a_work ''3'') = ''3''"
    by (simp_all add: a_work_def)
  from enrichWithMetadata_partial_failures[of ?e ?ws start] c q
  obtain enriched s' where
    r: "enrichWithMetadata ?e ?ws start =
         (Inr (enriched,
               card {i. i < length ?ws
                  \<and> detail_fails ?e (tick start + 2 * i) (workId (?ws ! i))}), s')"
    and l: "length enriched = length ?ws"
    and n: "\<forall>i < length ?ws. enriched ! i =
                (if \<not> success (detail_page ?e (tick start + 2 * i) (workId (?ws ! i)))
                 then ?ws ! i
                 else case workPage ?e (workId (?ws ! i))
                             (html (detail_page ?e (tick start + 2 * i) (workId (?ws ! i)))) of
                        Inl thrown \<Rightarrow> ?ws ! i
                      | Inr m \<Rightarrow>
                          (?ws ! i)
                            \<lparr> rating := Some (m_rating m), warnings := m_warnings m,
                              fandoms := m_fandoms m, relationships := m_relationships m,
                              characters := m_characters m,
                              freeformTags := m_freeformTags m,
                              wordCount := m_wordCount m, chapters := m_chapters m,
                              kudos := m_kudos m, bookmarks := m_bookmarks m,
                              hits := m_hits m, datePublished := m_datePublished m,
                              dateUpdated := m_dateUpdated m,
                              complete := m_complete m \<rparr>)"
    by blast
  have "{i. i < length ?ws \<and> detail_fails ?e (tick start + 2 * i) (workId (?ws ! i))} = {1, 2}"
  proof (rule set_eqI)
    fix i :: nat
    consider "i = 0" | "i = 1" | "i = 2" | "i \<ge> 3" by linarith
    then show "i \<in> {i. i < length ?ws
           \<and> detail_fails ?e (tick start + 2 * i) (workId (?ws ! i))}
          \<longleftrightarrow> i \<in> {1, 2}"
      by cases (simp_all add: t w flaky_fails)
  qed
  then have k: "card {i. i < length ?ws
           \<and> detail_fails ?e (tick start + 2 * i) (workId (?ws ! i))} = 2"
    by simp
  from n have "enriched ! 0 = (a_work ''1'')
                  \<lparr> rating := Some ''General Audiences'', wordCount := Some 1000,
                    chapters := Some ''1/1'', kudos := Some 10, bookmarks := Some 1,
                    hits := Some 100, datePublished := Some ''2024-03-15'',
                    complete := Some True \<rparr>"
    by (simp add: t w flaky_details a_metadata_def a_work_def)
  moreover from n have "enriched ! 1 = a_work ''2''"
    by (simp add: t w flaky_details)
  moreover from n have "enriched ! 2 = a_work ''3''"
    by (simp add: t w flaky_details)
  ultimately have "enriched = [(a_work ''1'')
                  \<lparr> rating := Some ''General Audiences'', wordCount := Some 1000,
                    chapters := Some ''1/1'', kudos := Some 10, bookmarks := Some 1,
                    hits := Some 100, datePublished := Some ''2024-03-15'',
                    complete := Some True \<rparr>, a_work ''2'', a_work ''3'']"
    using l by (cases enriched; cases "tl enriched"; cases "tl (tl enriched)") auto
  with r k c show ?thesis by (auto simp: flaky_calls t)
qed

text \<open>The run of the loop over two items when \<open>requestCancel()\<close> is called during the
  first detail fetch.\<close>

lemma run_enrich_cancelled:
  "fst (enrichWithMetadata (quiet_account (\<lambda>n. n = 0)) [a_work ''1'', a_work ''2''] start)
     = Inl cancelled_message"
  by code_simp

text \<open>
  Counterexample to C3 as stated. Two items whose detail fetches both succeed: the set of
  failing items is empty, and the claim has \<open>enrichWithMetadata\<close> complete without
  throwing. \<open>requestCancel()\<close> is called during the first detail fetch; the check
  before the second item finds the flag set and \<open>enrichWithMetadata\<close> throws.
\<close>

theorem enrichWithMetadata_cancelled_counterexample:
  "\<not> cancelRequested start
   \<and> \<not> detail_fails (quiet_account (\<lambda>n. n = 0)) 0 ''1''
   \<and> \<not> detail_fails (quiet_account (\<lambda>n. n = 0)) 2 ''2''
   \<and> fst (enrichWithMetadata (quiet_account (\<lambda>n. n = 0)) [a_work ''1'', a_work ''2''] start)
       = Inl ''Scraping cancelled by user''"
proof -
  have a: "\<not> cancelRequested start" by (simp add: start_def)
  have b: "\<not> detail_fails (quiet_account (\<lambda>n. n = 0)) 0 ''1''"
    "\<not> detail_fails (quiet_account (\<lambda>n. n = 0)) 2 ''2''"
    by (simp_all add: detail_fails_def detail_page_def quiet_account_def)
  have c: "fst (enrichWithMetadata (quiet_account (\<lambda>n. n = 0)) [a_work ''1'', a_work ''2''] start)
       = Inl ''Scraping cancelled by user''"
    using run_enrich_cancelled by (simp add: cancelled_message_def)
  from a b c show ?thesis by (simp only: simp_thms)
qed

section \<open>Runs of the small account\<close>

text \<open>The result and the final state of three runs over the small account, with the
  whole trace: a history-only run, a run with the default options (both sources), and a
  history-only run in which \<open>requestCancel()\<close> is called during suspension 3, the
  fetch of the work page.\<close>

lemma run_history_only:
  "scrapeAll (quiet_account (\<lambda>n. False)) ''u'' history_only start =
     (Success
        [\<lparr>workId = ''1'', title = ''T'', authors = [], fandoms = [],
            visitCount = Some 1, lastVisited = None, warnings = [],
            relationships = [], characters = [], freeformTags = [],
            wordCount = Some 1000, isBookmark = False,
            rating = Some ''General Audiences'', kudos = Some 10,
            bookmarks = Some 1, chapters = Some ''1/1'', complete = Some True,
            datePublished = Some ''2024-03-15'', hits = Some 100,
            dateUpdated = None, source = None, isBookmarked = False\<rparr>]
        1 0 ''All works processed successfully'',
       \<lparr>tick = 4, cancelRequested = False,
          trace =
            [Progress
              \<lparr>phase = ''init'',
                 message = ''Checking your reading history size...'',
                 detail = None, percent = 0, failedCount = None\<rparr>,
             Fetch ''https://archiveofourown.org/users/u/readings'',
             Progress
              \<lparr>phase = ''history'',
                 message = ''Found 1 pages of reading history'', detail = None,
                 percent = 5, failedCount = None\<rparr>,
             Progress
              \<lparr>phase = ''history'',
                 message = ''Fetching reading history... Page 1/1'',
                 detail = Some ''Respecting AO3's servers - please wait'',
                 percent = 30, failedCount = None\<rparr>,
             Fetch ''https://archiveofourown.org/users/u/readings?page=1'',
             Progress
              \<lparr>phase = ''metadata'',
                 message = ''Starting to analyze individual works...'',
                 detail = Some ''1 works to process'', percent = 30,
                 failedCount = None\<rparr>,
             Delay 5000,
             Progress
              \<lparr>phase = ''metadata'', message = ''Analyzing works... 1/1'',
                 detail = Some [CHR 0x22, CHR ''T'', CHR 0x22], percent = 30,
                 failedCount = Some 0\<rparr>,
             Fetch ''https://archiveofourown.org/works/1?view_adult=true'',
             Progress
              \<lparr>phase = ''complete'', message = ''Calculating your stats...'',
                 detail = None, percent = 95, failedCount = None\<rparr>]\<rparr>)"
  by code_simp

lemma run_default_options:
  "scrapeAll (quiet_account (\<lambda>n. False)) ''u'' default_options start =
     (Success
        [\<lparr>workId = ''1'', title = ''T'', authors = [], fandoms = [],
            visitCount = Some 1, lastVisited = None, warnings = [],
            relationships = [], characters = [], freeformTags = [],
            wordCount = Some 1000, isBookmark = False,
            rating = Some ''General Audiences'', kudos = Some 10,
            bookmarks = Some 1, chapters = Some ''1/1'', complete = Some True,
            datePublished = Some ''2024-03-15'', hits = Some 100,
            dateUpdated = None, source = None, isBookmarked = False\<rparr>,
         \<lparr>workId = ''2'', title = ''T'', authors = [], fandoms = [],
            visitCount = Some 1, lastVisited = None, warnings = [],
            relationships = [], characters = [], freeformTags = [],
            wordCount = Some 1000, isBookmark = True,
            rating = Some ''General Audiences'', kudos = Some 10,
            bookmarks = Some 1, chapters = Some ''1/1'', complete = Some True,
            datePublished = Some ''2024-03-15'', hits = Some 100,
            dateUpdated = None, source = None, isBookmarked = False\<rparr>]
        2 0 ''All works processed successfully'',
       \<lparr>tick = 9, cancelRequested = False,
          trace =
            [Progress
              \<lparr>phase = ''init'',
                 message = ''Checking your reading history size...'',
                 detail = None, percent = 0, failedCount = None\<rparr>,
             Fetch ''https://archiveofourown.org/users/u/readings'',
             Progress
              \<lparr>phase = ''history'',
                 message = ''Found 1 pages of reading history'', detail = None,
                 percent = 5, failedCount = None\<rparr>,
             Progress
              \<lparr>phase = ''history'',
                 message = ''Fetching reading history... Page 1/1'',
                 detail = Some ''Respecting AO3's servers - please wait'',
                 percent = 30, failedCount = None\<rparr>,
             Fetch ''https://archiveofourown.org/users/u/readings?page=1'',
             Delay 5000, Fetch ''https://archiveofourown.org/users/u/bookmarks'',
             Progress
              \<lparr>phase = ''bookmarks'', message = ''Found 1 pages of bookmarks'',
                 detail = None, percent = 32, failedCount = None\<rparr>,
             Progress
              \<lparr>phase = ''bookmarks'',
                 message = ''Fetching bookmarks... Page 1/1'',
                 detail = Some ''Respecting AO3's servers - please wait'',
                 percent = 42, failedCount = None\<rparr>,
             Fetch ''https://archiveofourown.org/users/u/bookmarks?page=1'',
             Progress
              \<lparr>phase = ''metadata'',
                 message = ''Starting to analyze individual works...'',
                 detail = Some ''2 works to process'', percent = 30,
                 failedCount = None\<rparr>,
             Delay 5000,
             Progress
              \<lparr>phase = ''metadata'', message = ''Analyzing works... 1/2'',
                 detail = Some [CHR 0x22, CHR ''T'', CHR 0x22], percent = 30,
                 failedCount = Some 0\<rparr>,
             Fetch ''https://archiveofourown.org/works/1?view_adult=true'',
             Delay 5000,
             Progress
              \<lparr>phase = ''metadata'', message = ''Analyzing works... 2/2'',
                 detail = Some [CHR 0x22, CHR ''T'', CHR 0x22], percent = 60,
                 failedCount = Some 0\<rparr>,
             Fetch ''https://archiveofourown.org/works/2?view_adult=true'',
             Progress
              \<lparr>phase = ''complete'', message = ''Calculating your stats...'',
                 detail = None, percent = 95, failedCount = None\<rparr>]\<rparr>)"
  by code_simp

lemma run_late_cancel:
  "scrapeAll (quiet_account (\<lambda>n. n = 3)) ''u'' history_only start =
     (Success
        [\<lparr>workId = ''1'', title = ''T'', authors = [], fandoms = [],
            visitCount = Some 1, lastVisited = None, warnings = [],
            relationships = [], characters = [], freeformTags = [],
            wordCount = Some 1000, isBookmark = False,
            rating = Some ''General Audiences'', kudos = Some 10,
            bookmarks = Some 1, chapters = Some ''1/1'', complete = Some True,
            datePublished = Some ''2024-03-15'', hits = Some 100,
            dateUpdated = None, source = None, isBookmarked = False\<rparr>]
        1 0 ''All works processed successfully'',
       \<lparr>tick = 4, cancelRequested = True,
          trace =
            [Progress
              \<lparr>phase = ''init'',
                 message = ''Checking your reading history size...'',
                 detail = None, percent = 0, failedCount = None\<rparr>,
             Fetch ''https://archiveofourown.org/users/u/readings'',
             Progress
              \<lparr>phase = ''history'',
                 message = ''Found 1 pages of reading history'', detail = None,
                 percent = 5, failedCount = None\<rparr>,
             Progress
              \<lparr>phase = ''history'',
                 message = ''Fetching reading history... Page 1/1'',
                 detail = Some ''Respecting AO3's servers - please wait'',
                 percent = 30, failedCount = None\<rparr>,
             Fetch ''https://archiveofourown.org/users/u/readings?page=1'',
             Progress
              \<lparr>phase = ''metadata'',
                 message = ''Starting to analyze individual works...'',
                 detail = Some ''1 works to process'', percent = 30,
                 failedCount = None\<rparr>,
             Delay 5000,
             Progress
              \<lparr>phase = ''metadata'', message = ''Analyzing works... 1/1'',
                 detail = Some [CHR 0x22, CHR ''T'', CHR 0x22], percent = 30,
                 failedCount = Some 0\<rparr>,
             Fetch ''https://archiveofourown.org/works/1?view_adult=true'',
             Progress
              \<lparr>phase = ''complete'', message = ''Calculating your stats...'',
                 detail = None, percent = 95, failedCount = None\<rparr>]\<rparr>)"
  by code_simp


text \<open>
  C2 on the code. A history-only run over the small account issues three fetches: the
  page count, the first history page and the work page. \<open>scrapeReadingHistory\<close>
  enters its loop right after \<open>getHistoryPageCount\<close> and delays only between two
  pages, so the first two fetches follow each other with no delay between them; the
  only delay of the run is the one before the enrichment.
\<close>

theorem first_page_fetched_without_delay:
  "requests (trace (snd (scrapeAll (quiet_account (\<lambda>n. False)) ''u'' history_only start)))
     = [Fetch ''https://archiveofourown.org/users/u/readings'',
        Fetch ''https://archiveofourown.org/users/u/readings?page=1'',
        Delay 5000,
        Fetch ''https://archiveofourown.org/works/1?view_adult=true'']
   \<and> \<not> spaced True
          (trace (snd (scrapeAll (quiet_account (\<lambda>n. False)) ''u'' history_only start)))"
  by (simp add: run_history_only)

text \<open>
  C8 on the code. A run with the default options (both sources) over the small account
  succeeds, and the percentages of its progress events are 0, 5, 30 for the history,
  32, 42 for the bookmarks, then 30 again when the enrichment starts: the sequence
  decreases from 42 to 30. It ends at 95.
\<close>

theorem progress_percent_drops:
  "is_Success (fst (scrapeAll (quiet_account (\<lambda>n. False)) ''u'' default_options start))
   \<and> percents (trace (snd (scrapeAll (quiet_account (\<lambda>n. False)) ''u'' default_options start)))
       = [0, 5, 30, 32, 42, 30, 30, 60, 95]
   \<and> \<not> sorted (percents
          (trace (snd (scrapeAll (quiet_account (\<lambda>n. False)) ''u'' default_options start))))"
  by (simp add: run_default_options)

text \<open>
  Counterexample to C4 as stated. In a history-only run over the small account the
  suspensions are: 0 the page count, 1 the history page, 2 the delay before the
  enrichment, 3 the fetch of the work page. A cancellation requested during suspension 3
  sets the flag before the run completes; no check follows, and the run resolves to a
  success result.
\<close>

theorem late_cancel_counterexample:
  "cancelRequested (snd (scrapeAll (quiet_account (\<lambda>n. n = 3)) ''u'' history_only start))
   \<and> is_Success (fst (scrapeAll (quiet_account (\<lambda>n. n = 3)) ''u'' history_only start))
   \<and> fst (scrapeAll (quiet_account (\<lambda>n. n = 3)) ''u'' history_only start)
       \<noteq> Cancelled ''Scraping was cancelled''"
  by (simp add: run_late_cancel)

text \<open>A history-only run in which the flag is set and cleared again, and a run with the
  default options in which a fetch fails after a request.\<close>

lemma run_restarted:
  "is_Success (fst (scrapeAll restarted_account ''u'' history_only start))"
  by code_simp

lemma run_failing:
  "fst (scrapeAll failing_account ''u'' default_options start)
     = Failure ''Failed to fetch bookmarks: timeout''
         ''Scraping failed: Failed to fetch bookmarks: timeout''"
  by code_simp

section \<open>Cancellation\<close>

lemma foldl_maxPage_ge: "m \<le> foldl maxPage_step m links"
proof (induction links arbitrary: m)
  case Nil
  then show ?case by simp
next
  case (Cons l links)
  have "m \<le> maxPage_step m l" by (simp add: maxPage_step_def split: option.splits)
  also have "\<dots> \<le> foldl maxPage_step (maxPage_step m l) links" by (rule Cons.IH)
  finally show ?case by simp
qed

lemma getPageCount_props:
  assumes "getPageCount e url ctx s = (r, s1)"
  shows "tick s1 = Suc (tick s)" and "isolated e \<Longrightarrow> flag_exact e s \<Longrightarrow> flag_exact e s1"
    and "r = Inr n \<Longrightarrow> 1 \<le> n"
    and "r = Inl msg \<Longrightarrow> \<not> success (fetchUrl e (tick s) url)"
proof -
  obtain res s0 where f: "electronAPI_fetchUrl e url s = (res, s0)"
    by (cases "electronAPI_fetchUrl e url s")
  note st = fetchUrl_state[OF f]
  from assms f have s1: "s1 = s0"
    by (auto simp: getPageCount_def split: if_splits option.splits)
  with st show "tick s1 = Suc (tick s)" by simp
  show "flag_exact e s1" if "isolated e" "flag_exact e s"
    using that st s1 by (auto intro: flag_exact_step)
  show "1 \<le> n" if "r = Inr n"
    using that assms f foldl_maxPage_ge[of 1]
    by (auto simp: getPageCount_def split: if_splits option.splits)
  show "\<not> success (fetchUrl e (tick s) url)" if "r = Inl msg"
    using that assms f st by (auto simp: getPageCount_def split: if_splits option.splits)
qed

lemma scrapeHistoryPage_props:
  assumes "scrapeHistoryPage e u p s = (r, s1)"
  shows "tick s1 = Suc (tick s)" and "isolated e \<Longrightarrow> flag_exact e s \<Longrightarrow> flag_exact e s1"
    and "r = Inl msg \<Longrightarrow> \<exists>url. \<not> success (fetchUrl e (tick s) url)"
proof -
  let ?url = "AO3_BASE_URL @ ''/users/'' @ u @ ''/readings?page='' @ show_int p"
  obtain res s0 where f: "electronAPI_fetchUrl e ?url s = (res, s0)"
    by (cases "electronAPI_fetchUrl e ?url s")
  note st = fetchUrl_state[OF f]
  from assms f have s1: "s1 = s0"
    by (auto simp: scrapeHistoryPage_def split: if_splits)
  with st show "tick s1 = Suc (tick s)" by simp
  show "flag_exact e s1" if "isolated e" "flag_exact e s"
    using that st s1 by (auto intro: flag_exact_step)
  show "\<exists>url. \<not> success (fetchUrl e (tick s) url)" if "r = Inl msg"
    using that assms f st by (auto simp: scrapeHistoryPage_def split: if_splits)
qed

lemma scrapeBookmarkPage_props:
  assumes "scrapeBookmarkPage e u p s = (r, s1)"
  shows "tick s1 = Suc (tick s)" and "isolated e \<Longrightarrow> flag_exact e s \<Longrightarrow> flag_exact e s1"
    and "r = Inl msg \<Longrightarrow> \<exists>url. \<not> success (fetchUrl e (tick s) url)"
proof -
  let ?url = "AO3_BASE_URL @ ''/users/'' @ u @ ''/bookmarks?page='' @ show_int p"
  obtain res s0 where f: "electronAPI_fetchUrl e ?url s = (res, s0)"
    by (cases "electronAPI_fetchUrl e ?url s")
  note st = fetchUrl_state[OF f]
  from assms f have s1: "s1 = s0"
    by (auto simp: scrapeBookmarkPage_def split: if_splits)
  with st show "tick s1 = Suc (tick s)" by simp
  show "flag_exact e s1" if "isolated e" "flag_exact e s"
    using that st s1 by (auto intro: flag_exact_step)
  show "\<exists>url. \<not> success (fetchUrl e (tick s) url)" if "r = Inl msg"
    using that assms f st by (auto simp: scrapeBookmarkPage_def split: if_splits)
qed

text \<open>What a loop with a cancellation check at its head guarantees. \<open>checked e s r s'\<close>:
  the final state keeps the flag exact; an error is the cancellation error unless some
  fetch failed; and a normal return after at least one suspension means that no request
  arrived before the last suspension.\<close>

lemma historyPages_props:
  "isolated e \<Longrightarrow> flag_exact e s \<Longrightarrow> historyPages e u T p acc s = (r, s') \<Longrightarrow>
     flag_exact e s' \<and> tick s \<le> tick s'
     \<and> (\<not> p \<le> T \<longrightarrow> r = Inr acc \<and> s' = s)
     \<and> (p \<le> T \<longrightarrow> \<not> isl r \<longrightarrow> tick s < tick s' \<and> quiet e (tick s' - 1))
     \<and> (\<forall>msg. r = Inl msg \<longrightarrow> (\<forall>n url. success (fetchUrl e n url)) \<longrightarrow> msg = cancelled_message)"
proof (induction e u T p acc s arbitrary: r s' rule: historyPages.induct)
  case (1 e u T p acc s)
  let ?s0 = "onProgress
               \<lparr> phase = ''history'',
                 message = ''Fetching reading history... Page '' @ show_int p @ ''/'' @ show_int T,
                 detail = Some ''Respecting AO3's servers - please wait'',
                 percent = 5 + (of_int p / of_int T) * 25,
                 failedCount = None \<rparr> s"
  note iso = "1.prems"(1) and fe = "1.prems"(2) and run = "1.prems"(3)
  show ?case
  proof (cases "p \<le> T")
    case False
    with run fe show ?thesis by (auto simp: historyPages.simps)
  next
    case pT: True
    show ?thesis
    proof (cases "isCancelled s")
      case True
      with pT run fe show ?thesis by (auto simp: historyPages.simps)
    next
      case nc: False
      obtain x s1 where f: "(x, s1) = scrapeHistoryPage e u p ?s0"
        by (cases "scrapeHistoryPage e u p ?s0") auto
      note pg = scrapeHistoryPage_props[OF f[symmetric]]
      from pg(1) have t1: "tick s1 = Suc (tick s)" by simp
      from pg(2) iso fe have fe1: "flag_exact e s1" by simp
      from nc fe have q: "quiet e (tick s)" by (simp add: isCancelled_def flag_exact_def)
      show ?thesis
      proof (cases x)
        case (Inl thrown)
        with run pT nc f[symmetric] have r: "r = Inl thrown" "s' = s1"
          by (simp_all add: historyPages.simps)
        from pg(3)[OF Inl] r fe1 t1 pT show ?thesis by auto
      next
        case (Inr got)
        let ?s2 = "if p < T then delay e RATE_LIMIT_MS s1 else s1"
        from run pT nc f[symmetric] Inr
        have rec: "historyPages e u T (p + 1) (acc @ got) ?s2 = (r, s')"
          by (simp add: historyPages.simps[of e u T p])
        have fe2: "flag_exact e ?s2" using fe1 iso by (simp add: flag_exact_delay)
        have t2: "tick s < tick ?s2" using t1 by simp
        note IH = "1.IH"[OF pT nc f Inr iso fe2 rec]
        show ?thesis
        proof (cases "p < T")
          case True
          with IH t2 pT show ?thesis by auto
        next
          case False
          with pT have "\<not> p + 1 \<le> T" by simp
          with IH False have "r = Inr (acc @ got)" "s' = s1" by simp_all
          with fe1 t1 q pT show ?thesis by simp
        qed
      qed
    qed
  qed
qed


lemma bookmarkPages_props:
  "isolated e \<Longrightarrow> flag_exact e s \<Longrightarrow> bookmarkPages e u off T p acc s = (r, s') \<Longrightarrow>
     flag_exact e s' \<and> tick s \<le> tick s'
     \<and> (\<not> p \<le> T \<longrightarrow> r = Inr acc \<and> s' = s)
     \<and> (p \<le> T \<longrightarrow> \<not> isl r \<longrightarrow> tick s < tick s' \<and> quiet e (tick s' - 1))
     \<and> (\<forall>msg. r = Inl msg \<longrightarrow> (\<forall>n url. success (fetchUrl e n url)) \<longrightarrow> msg = cancelled_message)"
proof (induction e u off T p acc s arbitrary: r s' rule: bookmarkPages.induct)
  case (1 e u off T p acc s)
  let ?s0 = "onProgress
               \<lparr> phase = ''bookmarks'',
                 message = ''Fetching bookmarks... Page '' @ show_int p @ ''/'' @ show_int T,
                 detail = Some ''Respecting AO3's servers - please wait'',
                 percent = off + (of_int p / of_int T) * 12,
                 failedCount = None \<rparr> s"
  note iso = "1.prems"(1) and fe = "1.prems"(2) and run = "1.prems"(3)
  show ?case
  proof (cases "p \<le> T")
    case False
    with run fe show ?thesis by (auto simp: bookmarkPages.simps)
  next
    case pT: True
    show ?thesis
    proof (cases "isCancelled s")
      case True
      with pT run fe show ?thesis by (auto simp: bookmarkPages.simps)
    next
      case nc: False
      obtain x s1 where f: "(x, s1) = scrapeBookmarkPage e u p ?s0"
        by (cases "scrapeBookmarkPage e u p ?s0") auto
      note pg = scrapeBookmarkPage_props[OF f[symmetric]]
      from pg(1) have t1: "tick s1 = Suc (tick s)" by simp
      from pg(2) iso fe have fe1: "flag_exact e s1" by simp
      from nc fe have q: "quiet e (tick s)" by (simp add: isCancelled_def flag_exact_def)
      show ?thesis
      proof (cases x)
        case (Inl thrown)
        with run pT nc f[symmetric] have r: "r = Inl thrown" "s' = s1"
          by (simp_all add: bookmarkPages.simps)
        from pg(3)[OF Inl] r fe1 t1 pT show ?thesis by auto
      next
        case (Inr got)
        let ?s2 = "if p < T then delay e RATE_LIMIT_MS s1 else s1"
        from run pT nc f[symmetric] Inr
        have rec: "bookmarkPages e u off T (p + 1) (acc @ got) ?s2 = (r, s')"
          by (simp add: bookmarkPages.simps[of e u off T p])
        have fe2: "flag_exact e ?s2" using fe1 iso by (simp add: flag_exact_delay)
        have t2: "tick s < tick ?s2" using t1 by simp
        note IH = "1.IH"[OF pT nc f Inr iso fe2 rec]
        show ?thesis
        proof (cases "p < T")
          case True
          with IH t2 pT show ?thesis by auto
        next
          case False
          with pT have "\<not> p + 1 \<le> T" by simp
          with IH False have "r = Inr (acc @ got)" "s' = s1" by simp_all
          with fe1 t1 q pT show ?thesis by simp
        qed
      qed
    qed
  qed
qed

lemma enrichItems_props:
  "isolated e \<Longrightarrow> flag_exact e s \<Longrightarrow> completed + length rest = total0 \<Longrightarrow>
   enrichItems e total0 rest visited completed nfail s = (r, s') \<Longrightarrow>
     flag_exact e s' \<and> tick s \<le> tick s'
     \<and> (rest \<noteq> [] \<longrightarrow> \<not> isl r \<longrightarrow> tick s < tick s' \<and> quiet e (tick s' - 1))
     \<and> (\<forall>msg. r = Inl msg \<longrightarrow> msg = cancelled_message)"
proof (induction rest arbitrary: visited completed nfail s r s')
  case Nil
  then show ?case by auto
next
  case (Cons item rest)
  let ?s0 = "onProgress
               \<lparr> phase = ''metadata'',
                 message = ''Analyzing works... '' @ show_nat (completed + 1) @ ''/''
                           @ show_nat total0,
                 detail = Some ([CHR 0x22] @ title item @ [CHR 0x22]),
                 percent = 30 + (of_nat completed / of_nat total0) * 60,
                 failedCount = Some nfail \<rparr> s"
  note iso = Cons.prems(1) and fe = Cons.prems(2) and len = Cons.prems(3)
    and run = Cons.prems(4)
  show ?case
  proof (cases "isCancelled s")
    case True
    with run fe show ?thesis by auto
  next
    case nc: False
    obtain x s1 where f: "fetchWorkMetadata e (workId item) ?s0 = (x, s1)"
      by (cases "fetchWorkMetadata e (workId item) ?s0")
    from fetchWorkMetadata_state[OF f] iso
    have t1: "tick s1 = Suc (tick s)"
      and c1: "cancelRequested s1 = (cancelRequested s \<or> cancelDuring e (tick s))" by simp_all
    from flag_exact_step[OF fe t1 c1] have fe1: "flag_exact e s1" .
    from nc fe have q: "quiet e (tick s)" by (simp add: isCancelled_def flag_exact_def)
    let ?s2 = "if completed + 1 < total0 then delay e RATE_LIMIT_MS s1 else s1"
    have fe2: "flag_exact e ?s2" using fe1 iso by (simp add: flag_exact_delay)
    have t2: "tick s < tick ?s2" using t1 by simp
    have len2: "(completed + 1) + length rest = total0" using len by simp
    obtain visited' nfail' where
      rec: "enrichItems e total0 rest visited' (completed + 1) nfail' ?s2 = (r, s')"
      using run nc f by (cases x) auto
    note IH = Cons.IH[OF iso fe2 len2 rec]
    show ?thesis
    proof (cases rest)
      case Nil
      with len have "\<not> completed + 1 < total0" by simp
      with rec Nil have "\<not> isl r" "s' = s1" by auto
      with fe1 t1 q show ?thesis by auto
    next
      case (Cons a list)
      with IH t2 show ?thesis by auto
    qed
  qed
qed

lemma scrapeReadingHistory_props:
  assumes iso: "isolated e" and "tick s = 0" and run: "scrapeReadingHistory e u opts s = (r, s')"
  shows "flag_exact e s' \<and> (\<not> isl r \<longrightarrow> quiet e (tick s' - 1))
     \<and> (\<forall>msg. r = Inl msg \<longrightarrow> (\<forall>n url. success (fetchUrl e n url)) \<longrightarrow> msg = cancelled_message)"
proof -
  let ?s0 = "onProgress
               \<lparr> phase = ''init'', message = ''Checking your reading history size...'',
                 detail = None, percent = 0, failedCount = None \<rparr>
               (resetCancel s)"
  have fe0: "flag_exact e ?s0"
    using assms(2) by (simp add: flag_exact_def resetCancel_def quiet_def)
  obtain c s1 where g: "getHistoryPageCount e u ?s0 = (c, s1)"
    by (cases "getHistoryPageCount e u ?s0")
  note pc = getPageCount_props[OF g[unfolded getHistoryPageCount_def]]
  from pc(2) iso fe0 have fe1: "flag_exact e s1" by simp
  show ?thesis
  proof (cases c)
    case (Inl thrown)
    with run g have "r = Inl thrown" "s' = s1" by (simp_all add: scrapeReadingHistory_def)
    with pc(4)[OF Inl] fe1 show ?thesis by auto
  next
    case (Inr counted)
    from pc(3)[OF Inr] have c1: "1 \<le> counted" .
    let ?T = "if timeRange opts = ''pages'' \<and> pageLimit opts > 0
              then min counted (pageLimit opts) else counted"
    have T1: "1 \<le> ?T" using c1 by auto
    let ?s2 = "onProgress
                 \<lparr> phase = ''history'',
                   message = ''Found '' @ show_int ?T @ '' pages of reading history'',
                   detail = None, percent = 5, failedCount = None \<rparr> s1"
    obtain x s3 where h: "historyPages e u ?T 1 [] ?s2 = (x, s3)"
      by (cases "historyPages e u ?T 1 [] ?s2")
    have fe2: "flag_exact e ?s2" using fe1 by simp
    note lp = historyPages_props[OF iso fe2 h]
    from run g Inr h have s': "s' = s3" and r: "isl r = isl x" "\<forall>msg. r = Inl msg \<longrightarrow> x = Inl msg"
      by (auto simp: scrapeReadingHistory_def Let_def split: sum.splits if_splits)
    with lp T1 show ?thesis by auto
  qed
qed

lemma scrapeBookmarks_props:
  assumes iso: "isolated e" and fe: "flag_exact e s" and run: "scrapeBookmarks e u opts off s = (r, s')"
  shows "flag_exact e s' \<and> (\<not> isl r \<longrightarrow> quiet e (tick s' - 1))
     \<and> (\<forall>msg. r = Inl msg \<longrightarrow> (\<forall>n url. success (fetchUrl e n url)) \<longrightarrow> msg = cancelled_message)"
proof -
  obtain c s1 where g: "getBookmarkPageCount e u s = (c, s1)"
    by (cases "getBookmarkPageCount e u s")
  note pc = getPageCount_props[OF g[unfolded getBookmarkPageCount_def]]
  from pc(2) iso fe have fe1: "flag_exact e s1" by simp
  show ?thesis
  proof (cases c)
    case (Inl thrown)
    with run g have "r = Inl thrown" "s' = s1" by (simp_all add: scrapeBookmarks_def)
    with pc(4)[OF Inl] fe1 show ?thesis by auto
  next
    case (Inr counted)
    from pc(3)[OF Inr] have c1: "1 \<le> counted" .
    let ?T = "if timeRange opts = ''pages'' \<and> pageLimit opts > 0
              then min counted (pageLimit opts) else counted"
    have T1: "1 \<le> ?T" using c1 by auto
    let ?s2 = "onProgress
                 \<lparr> phase = ''bookmarks'',
                   message = ''Found '' @ show_int ?T @ '' pages of bookmarks'',
                   detail = None, percent = off + 2, failedCount = None \<rparr> s1"
    obtain x s3 where h: "bookmarkPages e u off ?T 1 [] ?s2 = (x, s3)"
      by (cases "bookmarkPages e u off ?T 1 [] ?s2")
    have fe2: "flag_exact e ?s2" using fe1 by simp
    note lp = bookmarkPages_props[OF iso fe2 h]
    from run g Inr h have s': "s' = s3" and r: "isl r = isl x" "\<forall>msg. r = Inl msg \<longrightarrow> x = Inl msg"
      by (auto simp: scrapeBookmarks_def Let_def split: sum.splits if_splits)
    with lp T1 show ?thesis by auto
  qed
qed


lemma phase1a_props:
  assumes iso: "isolated e" and "tick s = 0" and "\<not> cancelRequested s" and run: "phase1a e u src sc s = (r, s')"
  shows "flag_exact e s' \<and> (\<not> isl r \<longrightarrow> quiet e (tick s' - 1))
     \<and> (\<forall>msg. r = Inl msg \<longrightarrow> (\<forall>n url. success (fetchUrl e n url)) \<longrightarrow> msg = cancelled_message)"
proof (cases "src = ''both'' \<or> src = ''history''")
  case True
  with run have "scrapeReadingHistory e u sc s = (r, s')" by (simp add: phase1a_def)
  from scrapeReadingHistory_props[OF iso assms(2) this] show ?thesis .
next
  case False
  with run have "r = Inr []" "s' = s" by (simp_all add: phase1a_def)
  with assms(2,3) show ?thesis by (simp add: flag_exact_def quiet_def)
qed

lemma phase1b_props:
  assumes iso: "isolated e" and fe: "flag_exact e s" and q: "quiet e (tick s - 1)"
    and run: "phase1b e u src sc hist s = (r, s')"
  shows "flag_exact e s' \<and> (\<not> isl r \<longrightarrow> quiet e (tick s' - 1))
     \<and> (\<forall>msg. r = Inl msg \<longrightarrow> (\<forall>n url. success (fetchUrl e n url)) \<longrightarrow> msg = cancelled_message)"
proof (cases "src = ''both'' \<or> src = ''bookmarks''")
  case True
  let ?s0 = "if src = ''both'' then delay e RATE_LIMIT_MS s else s"
  have fe0: "flag_exact e ?s0" using fe iso by (simp add: flag_exact_delay)
  obtain x s1 where b: "scrapeBookmarks e u sc (if src = ''both'' then 30 else 0) ?s0 = (x, s1)"
    by (cases "scrapeBookmarks e u sc (if src = ''both'' then 30 else 0) ?s0")
  from run True b have "s' = s1" "isl r = isl x" "\<forall>msg. r = Inl msg \<longrightarrow> x = Inl msg"
    by (auto simp: phase1b_def split: sum.splits)
  with scrapeBookmarks_props[OF iso fe0 b] show ?thesis by auto
next
  case False
  with run have "r = Inr hist" "s' = s" by (simp_all add: phase1b_def)
  with fe q show ?thesis by simp
qed

lemma phase2_props:
  assumes iso: "isolated e" and fe: "flag_exact e s" and q: "quiet e (tick s - 1)"
    and run: "phase2 e src allItems s = (r, s')"
  shows "(\<forall>res. r = Inr res \<longrightarrow> is_Success res \<and> quiet e (tick s' - 1))
     \<and> (\<forall>msg. r = Inl msg \<longrightarrow> msg = cancelled_message)"
proof (cases "length allItems = 0")
  case True
  with run q show ?thesis by (auto simp: phase2_def)
next
  case False
  let ?s0 = "delay e RATE_LIMIT_MS
               (onProgress
                  \<lparr> phase = ''metadata'',
                    message = ''Starting to analyze individual works...'',
                    detail = Some (show_nat (length allItems) @ '' works to process''),
                    percent = 30, failedCount = None \<rparr> s)"
  have fe0: "flag_exact e ?s0" using fe iso by (simp add: flag_exact_delay)
  obtain x s1 where en: "enrichItems e (length allItems) allItems [] 0 0 ?s0 = (x, s1)"
    by (cases "enrichItems e (length allItems) allItems [] 0 0 ?s0")
  from False have ne: "allItems \<noteq> []" by simp
  from enrichItems_props[OF iso fe0 _ en] ne
  have p: "\<not> isl x \<longrightarrow> quiet e (tick s1 - 1)" "\<forall>msg. x = Inl msg \<longrightarrow> msg = cancelled_message"
    by auto
  from run False en have
    "(\<forall>res. r = Inr res \<longrightarrow> is_Success res \<and> \<not> isl x \<and> tick s' = tick s1)"
    "\<forall>msg. r = Inl msg \<longrightarrow> x = Inl msg"
    by (auto simp: phase2_def enrichWithMetadata_def split: sum.splits prod.splits)
  with p show ?thesis by auto
qed

lemma scrapeAll_try_props:
  assumes iso: "isolated e" and t0: "tick s = 0" and run: "scrapeAll_try e u opts s = (r, s')"
  shows "(\<forall>res. r = Inr res \<longrightarrow> is_Success res \<and> quiet e (tick s' - 1))
     \<and> (\<forall>msg. r = Inl msg \<longrightarrow> (\<forall>n url. success (fetchUrl e n url)) \<longrightarrow> msg = cancelled_message)"
proof -
  let ?src = "case opt_source opts of None \<Rightarrow> ''both'' | Some x \<Rightarrow> x"
  let ?sc = "\<lparr> timeRange = (case opt_timeRange opts of None \<Rightarrow> ''year'' | Some x \<Rightarrow> x),
               pageLimit = (case opt_pageLimit opts of None \<Rightarrow> 10 | Some x \<Rightarrow> x) \<rparr>"
  have r0: "tick (resetCancel s) = 0" "\<not> cancelRequested (resetCancel s)"
    using t0 by (simp_all add: resetCancel_def)
  obtain h s1 where a: "phase1a e u ?src ?sc (resetCancel s) = (h, s1)"
    by (cases "phase1a e u ?src ?sc (resetCancel s)")
  note pa = phase1a_props[OF iso r0 a]
  show ?thesis
  proof (cases h)
    case (Inl thrown)
    with run a have "r = Inl thrown" by (simp add: scrapeAll_try_def Let_def)
    with pa Inl show ?thesis by auto
  next
    case (Inr hist)
    obtain b s2 where pb: "phase1b e u ?src ?sc hist s1 = (b, s2)"
      by (cases "phase1b e u ?src ?sc hist s1")
    from pa Inr have fe1: "flag_exact e s1" and q1: "quiet e (tick s1 - 1)" by auto
    note pbp = phase1b_props[OF iso fe1 q1 pb]
    show ?thesis
    proof (cases b)
      case (Inl thrown)
      with run a Inr pb have "r = Inl thrown" by (simp add: scrapeAll_try_def Let_def)
      with pbp Inl show ?thesis by auto
    next
      case all: (Inr allItems)
      with run a Inr pb have p2: "phase2 e ?src allItems s2 = (r, s')"
        by (simp add: scrapeAll_try_def Let_def)
      from pbp all have fe2: "flag_exact e s2" and q2: "quiet e (tick s2 - 1)" by auto
      from phase2_props[OF iso fe2 q2 p2] show ?thesis by auto
    qed
  qed
qed

text \<open>The run and the run left alone. As long as no check of the run finds the flag
  set, the two make the same fetches at the same suspensions and return the same.\<close>

lemma left_alone_fields [simp]:
  "fetchUrl (left_alone e) = fetchUrl e"
  "paginationLinks (left_alone e) = paginationLinks e"
  "readingBlurbs (left_alone e) = readingBlurbs e"
  "bookmarkBlurbs (left_alone e) = bookmarkBlurbs e"
  "workPage (left_alone e) = workPage e"
  "Date_parse (left_alone e) = Date_parse e"
  "oneYearAgo (left_alone e) = oneYearAgo e"
  by (simp_all add: left_alone_def)

lemma isWithinLastYear_left_alone [simp]:
  "isWithinLastYear (left_alone e) = isWithinLastYear e"
  by (rule ext) (simp add: isWithinLastYear_def split: option.splits)

lemma in_step_onProgress [simp]: "in_step (onProgress p s) (onProgress p s0) = in_step s s0"
  by (simp add: in_step_def)

lemma in_step_resetCancel: "tick s0 = tick s \<Longrightarrow> in_step (resetCancel s) (resetCancel s0)"
  by (simp add: in_step_def resetCancel_def)

lemma in_step_delay:
  "in_step s s0 \<Longrightarrow> in_step (delay e ms s) (delay (left_alone e) ms s0)"
  by (simp add: in_step_def)

lemma in_step_fetchUrl:
  "in_step s s0 \<Longrightarrow>
   fst (electronAPI_fetchUrl (left_alone e) url s0) = fst (electronAPI_fetchUrl e url s)
   \<and> in_step (snd (electronAPI_fetchUrl e url s)) (snd (electronAPI_fetchUrl (left_alone e) url s0))"
  by (simp add: in_step_def electronAPI_fetchUrl_def)

lemma in_step_getPageCount:
  assumes "in_step s s0" and "getPageCount e url ctx s = (r, s1)"
  shows "\<exists>s01. getPageCount (left_alone e) url ctx s0 = (r, s01) \<and> in_step s1 s01"
    and "r \<noteq> Inl cancelled_message"
proof -
  note f = in_step_fetchUrl[OF assms(1), of e url]
  obtain res t where a: "electronAPI_fetchUrl e url s = (res, t)"
    by (cases "electronAPI_fetchUrl e url s")
  obtain res0 t0 where b: "electronAPI_fetchUrl (left_alone e) url s0 = (res0, t0)"
    by (cases "electronAPI_fetchUrl (left_alone e) url s0")
  from f a b have "res0 = res" "in_step t t0" by simp_all
  with assms(2) a b show "\<exists>s01. getPageCount (left_alone e) url ctx s0 = (r, s01) \<and> in_step s1 s01"
    by (auto simp: getPageCount_def split: if_splits option.splits)
  from assms(2) a show "r \<noteq> Inl cancelled_message"
    by (auto simp: getPageCount_def cancelled_message_def split: if_splits option.splits)
qed

lemma in_step_scrapeHistoryPage:
  assumes "in_step s s0" and "scrapeHistoryPage e u p s = (r, s1)"
  shows "\<exists>s01. scrapeHistoryPage (left_alone e) u p s0 = (r, s01) \<and> in_step s1 s01"
    and "r \<noteq> Inl cancelled_message"
proof -
  let ?url = "AO3_BASE_URL @ ''/users/'' @ u @ ''/readings?page='' @ show_int p"
  note f = in_step_fetchUrl[OF assms(1), of e ?url]
  obtain res t where a: "electronAPI_fetchUrl e ?url s = (res, t)"
    by (cases "electronAPI_fetchUrl e ?url s")
  obtain res0 t0 where b: "electronAPI_fetchUrl (left_alone e) ?url s0 = (res0, t0)"
    by (cases "electronAPI_fetchUrl (left_alone e) ?url s0")
  from f a b have "res0 = res" "in_step t t0" by simp_all
  with assms(2) a b
  show "\<exists>s01. scrapeHistoryPage (left_alone e) u p s0 = (r, s01) \<and> in_step s1 s01"
    by (auto simp: scrapeHistoryPage_def split: if_splits)
  from assms(2) a show "r \<noteq> Inl cancelled_message"
    by (auto simp: scrapeHistoryPage_def cancelled_message_def split: if_splits)
qed

lemma in_step_scrapeBookmarkPage:
  assumes "in_step s s0" and "scrapeBookmarkPage e u p s = (r, s1)"
  shows "\<exists>s01. scrapeBookmarkPage (left_alone e) u p s0 = (r, s01) \<and> in_step s1 s01"
    and "r \<noteq> Inl cancelled_message"
proof -
  let ?url = "AO3_BASE_URL @ ''/users/'' @ u @ ''/bookmarks?page='' @ show_int p"
  note f = in_step_fetchUrl[OF assms(1), of e ?url]
  obtain res t where a: "electronAPI_fetchUrl e ?url s = (res, t)"
    by (cases "electronAPI_fetchUrl e ?url s")
  obtain res0 t0 where b: "electronAPI_fetchUrl (left_alone e) ?url s0 = (res0, t0)"
    by (cases "electronAPI_fetchUrl (left_alone e) ?url s0")
  from f a b have "res0 = res" "in_step t t0" by simp_all
  with assms(2) a b
  show "\<exists>s01. scrapeBookmarkPage (left_alone e) u p s0 = (r, s01) \<and> in_step s1 s01"
    by (auto simp: scrapeBookmarkPage_def split: if_splits)
  from assms(2) a show "r \<noteq> Inl cancelled_message"
    by (auto simp: scrapeBookmarkPage_def cancelled_message_def split: if_splits)
qed

lemma in_step_fetchWorkMetadata:
  assumes "in_step s s0" and "fetchWorkMetadata e wid s = (r, s1)"
  shows "\<exists>s01. fetchWorkMetadata (left_alone e) wid s0 = (r, s01) \<and> in_step s1 s01"
proof -
  let ?url = "AO3_BASE_URL @ ''/works/'' @ wid @ ''?view_adult=true''"
  note f = in_step_fetchUrl[OF assms(1), of e ?url]
  obtain res t where a: "electronAPI_fetchUrl e ?url s = (res, t)"
    by (cases "electronAPI_fetchUrl e ?url s")
  obtain res0 t0 where b: "electronAPI_fetchUrl (left_alone e) ?url s0 = (res0, t0)"
    by (cases "electronAPI_fetchUrl (left_alone e) ?url s0")
  from f a b have "res0 = res" "in_step t t0" by simp_all
  with assms(2) a b show ?thesis
    by (auto simp: fetchWorkMetadata_def split: if_splits sum.splits)
qed

lemma in_step_flag: "in_step s s0 \<Longrightarrow> \<not> isCancelled s0"
  by (simp add: in_step_def isCancelled_def)

lemma in_step_historyPages:
  "historyPages e u T p acc s = (r, s') \<Longrightarrow> r \<noteq> Inl cancelled_message \<Longrightarrow> in_step s s0 \<Longrightarrow>
     \<exists>s0'. historyPages (left_alone e) u T p acc s0 = (r, s0') \<and> in_step s' s0'"
proof (induction e u T p acc s arbitrary: s0 rule: historyPages.induct)
  case (1 e u T p acc s)
  let ?p = "\<lparr> phase = ''history'',
                 message = ''Fetching reading history... Page '' @ show_int p @ ''/'' @ show_int T,
                 detail = Some ''Respecting AO3's servers - please wait'',
                 percent = 5 + (of_int p / of_int T) * 25,
                 failedCount = None \<rparr>"
  note run = "1.prems"(1) and nc = "1.prems"(2) and st = "1.prems"(3)
  note f0 = in_step_flag[OF st]
  show ?case
  proof (cases "p \<le> T")
    case False
    with run st show ?thesis
      by (simp add: historyPages.simps[of _ u T p])
  next
    case pT: True
    from run nc pT have c: "\<not> isCancelled s"
      by (auto simp: historyPages.simps[of e u T p])
    obtain x s1 where f: "(x, s1) = scrapeHistoryPage e u p (onProgress ?p s)"
      by (cases "scrapeHistoryPage e u p (onProgress ?p s)") auto
    have st1: "in_step (onProgress ?p s) (onProgress ?p s0)" using st by simp
    from in_step_scrapeHistoryPage(1)[OF st1 f[symmetric]] obtain s01 where
      f0': "scrapeHistoryPage (left_alone e) u p (onProgress ?p s0) = (x, s01)"
      and st2: "in_step s1 s01" by blast
    show ?thesis
    proof (cases x)
      case (Inl thrown)
      with run pT c f[symmetric] have "r = Inl thrown" "s' = s1"
        by (simp_all add: historyPages.simps[of e u T p])
      with Inl pT f0 f0' st2 show ?thesis
        by (simp add: historyPages.simps[of "left_alone e" u T p])
    next
      case (Inr got)
      let ?sa = "if p < T then delay e RATE_LIMIT_MS s1 else s1"
      let ?sb = "if p < T then delay (left_alone e) RATE_LIMIT_MS s01 else s01"
      from run pT c f[symmetric] Inr
      have rec: "historyPages e u T (p + 1) (acc @ got) ?sa = (r, s')"
        by (simp add: historyPages.simps[of e u T p])
      have st3: "in_step ?sa ?sb" using st2 by (simp add: in_step_delay)
      from "1.IH"[OF pT c f Inr rec nc st3] obtain s0' where
        "historyPages (left_alone e) u T (p + 1) (acc @ got) ?sb = (r, s0')" "in_step s' s0'"
        by blast
      with Inr pT f0 f0' show ?thesis
        by (simp add: historyPages.simps[of "left_alone e" u T p])
    qed
  qed
qed

lemma in_step_bookmarkPages:
  "bookmarkPages e u off T p acc s = (r, s') \<Longrightarrow> r \<noteq> Inl cancelled_message \<Longrightarrow>
   in_step s s0 \<Longrightarrow>
     \<exists>s0'. bookmarkPages (left_alone e) u off T p acc s0 = (r, s0') \<and> in_step s' s0'"
proof (induction e u off T p acc s arbitrary: s0 rule: bookmarkPages.induct)
  case (1 e u off T p acc s)
  let ?p = "\<lparr> phase = ''bookmarks'',
                 message = ''Fetching bookmarks... Page '' @ show_int p @ ''/'' @ show_int T,
                 detail = Some ''Respecting AO3's servers - please wait'',
                 percent = off + (of_int p / of_int T) * 12,
                 failedCount = None \<rparr>"
  note run = "1.prems"(1) and nc = "1.prems"(2) and st = "1.prems"(3)
  note f0 = in_step_flag[OF st]
  show ?case
  proof (cases "p \<le> T")
    case False
    with run st show ?thesis
      by (simp add: bookmarkPages.simps[of _ u off T p])
  next
    case pT: True
    from run nc pT have c: "\<not> isCancelled s"
      by (auto simp: bookmarkPages.simps[of e u off T p])
    obtain x s1 where f: "(x, s1) = scrapeBookmarkPage e u p (onProgress ?p s)"
      by (cases "scrapeBookmarkPage e u p (onProgress ?p s)") auto
    have st1: "in_step (onProgress ?p s) (onProgress ?p s0)" using st by simp
    from in_step_scrapeBookmarkPage(1)[OF st1 f[symmetric]] obtain s01 where
      f0': "scrapeBookmarkPage (left_alone e) u p (onProgress ?p s0) = (x, s01)"
      and st2: "in_step s1 s01" by blast
    show ?thesis
    proof (cases x)
      case (Inl thrown)
      with run pT c f[symmetric] have "r = Inl thrown" "s' = s1"
        by (simp_all add: bookmarkPages.simps[of e u off T p])
      with Inl pT f0 f0' st2 show ?thesis
        by (simp add: bookmarkPages.simps[of "left_alone e" u off T p])
    next
      case (Inr got)
      let ?sa = "if p < T then delay e RATE_LIMIT_MS s1 else s1"
      let ?sb = "if p < T then delay (left_alone e) RATE_LIMIT_MS s01 else s01"
      from run pT c f[symmetric] Inr
      have rec: "bookmarkPages e u off T (p + 1) (acc @ got) ?sa = (r, s')"
        by (simp add: bookmarkPages.simps[of e u off T p])
      have st3: "in_step ?sa ?sb" using st2 by (simp add: in_step_delay)
      from "1.IH"[OF pT c f Inr rec nc st3] obtain s0' where
        "bookmarkPages (left_alone e) u off T (p + 1) (acc @ got) ?sb = (r, s0')"
        "in_step s' s0'"
        by blast
      with Inr pT f0 f0' show ?thesis
        by (simp add: bookmarkPages.simps[of "left_alone e" u off T p])
    qed
  qed
qed

lemma in_step_enrichItems:
  "enrichItems e total0 rest visited completed nfail s = (r, s') \<Longrightarrow>
   r \<noteq> Inl cancelled_message \<Longrightarrow> in_step s s0 \<Longrightarrow>
     \<exists>s0'. enrichItems (left_alone e) total0 rest visited completed nfail s0 = (r, s0')
           \<and> in_step s' s0'"
proof (induction rest arbitrary: visited completed nfail s s0)
  case Nil
  then show ?case by simp
next
  case (Cons item rest)
  let ?p = "\<lparr> phase = ''metadata'',
                 message = ''Analyzing works... '' @ show_nat (completed + 1) @ ''/''
                           @ show_nat total0,
                 detail = Some ([CHR 0x22] @ title item @ [CHR 0x22]),
                 percent = 30 + (of_nat completed / of_nat total0) * 60,
                 failedCount = Some nfail \<rparr>"
  note run = Cons.prems(1) and nc = Cons.prems(2) and st = Cons.prems(3)
  note f0 = in_step_flag[OF st]
  from run nc have c: "\<not> isCancelled s" by auto
  obtain x s1 where f: "fetchWorkMetadata e (workId item) (onProgress ?p s) = (x, s1)"
    by (cases "fetchWorkMetadata e (workId item) (onProgress ?p s)")
  have st1: "in_step (onProgress ?p s) (onProgress ?p s0)" using st by simp
  from in_step_fetchWorkMetadata[OF st1 f] obtain s01 where
    f0': "fetchWorkMetadata (left_alone e) (workId item) (onProgress ?p s0) = (x, s01)"
    and st2: "in_step s1 s01" by blast
  let ?sa = "if completed + 1 < total0 then delay e RATE_LIMIT_MS s1 else s1"
  let ?sb = "if completed + 1 < total0 then delay (left_alone e) RATE_LIMIT_MS s01 else s01"
  have st3: "in_step ?sa ?sb" using st2 by (simp add: in_step_delay)
  show ?case
  proof (cases x)
    case (Inl thrown)
    with run c f have
      rec: "enrichItems e total0 rest (visited @ [item]) (completed + 1) (nfail + 1) ?sa = (r, s')"
      by simp
    from Cons.IH[OF rec nc st3] Inl f0 f0' show ?thesis by simp
  next
    case (Inr m)
    with run c f have
      rec: "enrichItems e total0 rest (visited @ [Object_assign item m]) (completed + 1) nfail ?sa
              = (r, s')"
      by simp
    from Cons.IH[OF rec nc st3] Inr f0 f0' show ?thesis by simp
  qed
qed

text \<open>The same for the two scraping functions, the phases and the body of the
  \<open>try\<close> block.\<close>

lemma in_step_scrapeReadingHistory:
  assumes run: "scrapeReadingHistory e u opts s = (r, s')" and nc: "r \<noteq> Inl cancelled_message"
    and t: "tick s0 = tick s"
  shows "\<exists>s0'. scrapeReadingHistory (left_alone e) u opts s0 = (r, s0') \<and> in_step s' s0'"
proof -
  let ?p = "\<lparr> phase = ''init'', message = ''Checking your reading history size...'',
                 detail = None, percent = 0, failedCount = None \<rparr>"
  let ?url = "AO3_BASE_URL @ ''/users/'' @ u @ ''/readings''"
  have st: "in_step (onProgress ?p (resetCancel s)) (onProgress ?p (resetCancel s0))"
    using t by (simp add: in_step_resetCancel)
  obtain c s1 where g: "getPageCount e ?url ''history'' (onProgress ?p (resetCancel s)) = (c, s1)"
    by (cases "getPageCount e ?url ''history'' (onProgress ?p (resetCancel s))")
  from in_step_getPageCount(1)[OF st g] obtain s01 where
    g0: "getPageCount (left_alone e) ?url ''history'' (onProgress ?p (resetCancel s0)) = (c, s01)"
    and st1: "in_step s1 s01" by blast
  show ?thesis
  proof (cases c)
    case (Inl thrown)
    with run g have "r = Inl thrown" "s' = s1"
      by (simp_all add: scrapeReadingHistory_def getHistoryPageCount_def)
    with Inl g0 st1 show ?thesis
      by (simp add: scrapeReadingHistory_def getHistoryPageCount_def)
  next
    case (Inr counted)
    let ?T = "if timeRange opts = ''pages'' \<and> pageLimit opts > 0
              then min counted (pageLimit opts) else counted"
    let ?q = "\<lparr> phase = ''history'',
                   message = ''Found '' @ show_int ?T @ '' pages of reading history'',
                   detail = None, percent = 5, failedCount = None \<rparr>"
    obtain x s3 where h: "historyPages e u ?T 1 [] (onProgress ?q s1) = (x, s3)"
      by (cases "historyPages e u ?T 1 [] (onProgress ?q s1)")
    from run g Inr h have s': "s' = s3" and rx: "x = Inl cancelled_message \<longrightarrow> r = Inl cancelled_message"
      by (auto simp: scrapeReadingHistory_def getHistoryPageCount_def Let_def
          split: sum.splits if_splits)
    with nc have ncx: "x \<noteq> Inl cancelled_message" by blast
    have st2: "in_step (onProgress ?q s1) (onProgress ?q s01)" using st1 by simp
    from in_step_historyPages[OF h ncx st2] obtain s03 where
      h0: "historyPages (left_alone e) u ?T 1 [] (onProgress ?q s01) = (x, s03)"
      and st3: "in_step s3 s03" by blast
    from run g Inr h g0 h0 st3 s' show ?thesis
      by (auto simp: scrapeReadingHistory_def getHistoryPageCount_def Let_def
          split: sum.splits if_splits)
  qed
qed

lemma in_step_scrapeBookmarks:
  assumes run: "scrapeBookmarks e u opts off s = (r, s')" and nc: "r \<noteq> Inl cancelled_message"
    and st: "in_step s s0"
  shows "\<exists>s0'. scrapeBookmarks (left_alone e) u opts off s0 = (r, s0') \<and> in_step s' s0'"
proof -
  let ?url = "AO3_BASE_URL @ ''/users/'' @ u @ ''/bookmarks''"
  obtain c s1 where g: "getPageCount e ?url ''bookmarks'' s = (c, s1)"
    by (cases "getPageCount e ?url ''bookmarks'' s")
  from in_step_getPageCount(1)[OF st g] obtain s01 where
    g0: "getPageCount (left_alone e) ?url ''bookmarks'' s0 = (c, s01)"
    and st1: "in_step s1 s01" by blast
  show ?thesis
  proof (cases c)
    case (Inl thrown)
    with run g have "r = Inl thrown" "s' = s1"
      by (simp_all add: scrapeBookmarks_def getBookmarkPageCount_def)
    with Inl g0 st1 show ?thesis
      by (simp add: scrapeBookmarks_def getBookmarkPageCount_def)
  next
    case (Inr counted)
    let ?T = "if timeRange opts = ''pages'' \<and> pageLimit opts > 0
              then min counted (pageLimit opts) else counted"
    let ?q = "\<lparr> phase = ''bookmarks'',
                   message = ''Found '' @ show_int ?T @ '' pages of bookmarks'',
                   detail = None, percent = off + 2, failedCount = None \<rparr>"
    obtain x s3 where h: "bookmarkPages e u off ?T 1 [] (onProgress ?q s1) = (x, s3)"
      by (cases "bookmarkPages e u off ?T 1 [] (onProgress ?q s1)")
    from run g Inr h have s': "s' = s3" and rx: "x = Inl cancelled_message \<longrightarrow> r = Inl cancelled_message"
      by (auto simp: scrapeBookmarks_def getBookmarkPageCount_def Let_def
          split: sum.splits if_splits)
    with nc have ncx: "x \<noteq> Inl cancelled_message" by blast
    have st2: "in_step (onProgress ?q s1) (onProgress ?q s01)" using st1 by simp
    from in_step_bookmarkPages[OF h ncx st2] obtain s03 where
      h0: "bookmarkPages (left_alone e) u off ?T 1 [] (onProgress ?q s01) = (x, s03)"
      and st3: "in_step s3 s03" by blast
    from run g Inr h g0 h0 st3 s' show ?thesis
      by (auto simp: scrapeBookmarks_def getBookmarkPageCount_def Let_def
          split: sum.splits if_splits)
  qed
qed

lemma in_step_phase1a:
  assumes run: "phase1a e u src sc s = (r, s')" and nc: "r \<noteq> Inl cancelled_message"
    and st: "in_step s s0"
  shows "\<exists>s0'. phase1a (left_alone e) u src sc s0 = (r, s0') \<and> in_step s' s0'"
proof (cases "src = ''both'' \<or> src = ''history''")
  case True
  with run have "scrapeReadingHistory e u sc s = (r, s')" by (simp add: phase1a_def)
  from in_step_scrapeReadingHistory[OF this nc, of s0] st True show ?thesis
    by (simp add: phase1a_def in_step_def)
next
  case False
  with run st show ?thesis by (auto simp: phase1a_def)
qed

lemma in_step_phase1b:
  assumes run: "phase1b e u src sc hist s = (r, s')" and nc: "r \<noteq> Inl cancelled_message"
    and st: "in_step s s0"
  shows "\<exists>s0'. phase1b (left_alone e) u src sc hist s0 = (r, s0') \<and> in_step s' s0'"
proof (cases "src = ''both'' \<or> src = ''bookmarks''")
  case True
  let ?sa = "if src = ''both'' then delay e RATE_LIMIT_MS s else s"
  let ?sb = "if src = ''both'' then delay (left_alone e) RATE_LIMIT_MS s0 else s0"
  let ?off = "if src = ''both'' then 30 else 0 :: rat"
  have st1: "in_step ?sa ?sb" using st by (simp add: in_step_delay)
  obtain x s1 where b: "scrapeBookmarks e u sc ?off ?sa = (x, s1)"
    by (cases "scrapeBookmarks e u sc ?off ?sa")
  from run True b have s': "s' = s1" and rx: "x = Inl cancelled_message \<longrightarrow> r = Inl cancelled_message"
    by (auto simp: phase1b_def split: sum.splits)
  with nc have ncx: "x \<noteq> Inl cancelled_message" by blast
  from in_step_scrapeBookmarks[OF b ncx st1] obtain s01 where
    b0: "scrapeBookmarks (left_alone e) u sc ?off ?sb = (x, s01)" and st2: "in_step s1 s01"
    by blast
  from run True b b0 st2 s' show ?thesis
    by (auto simp: phase1b_def split: sum.splits)
next
  case False
  with run st show ?thesis by (auto simp: phase1b_def)
qed

lemma in_step_phase2:
  assumes run: "phase2 e src allItems s = (r, s')" and nc: "r \<noteq> Inl cancelled_message"
    and st: "in_step s s0"
  shows "\<exists>s0'. phase2 (left_alone e) src allItems s0 = (r, s0') \<and> in_step s' s0'"
proof (cases "length allItems = 0")
  case True
  with run st show ?thesis by (auto simp: phase2_def)
next
  case False
  let ?p = "\<lparr> phase = ''metadata'',
                    message = ''Starting to analyze individual works...'',
                    detail = Some (show_nat (length allItems) @ '' works to process''),
                    percent = 30, failedCount = None \<rparr>"
  let ?sa = "delay e RATE_LIMIT_MS (onProgress ?p s)"
  let ?sb = "delay (left_alone e) RATE_LIMIT_MS (onProgress ?p s0)"
  have st1: "in_step ?sa ?sb" using st by (simp add: in_step_delay)
  obtain x s1 where en: "enrichItems e (length allItems) allItems [] 0 0 ?sa = (x, s1)"
    by (cases "enrichItems e (length allItems) allItems [] 0 0 ?sa")
  from run False en have rx: "x = Inl cancelled_message \<longrightarrow> r = Inl cancelled_message"
    by (auto simp: phase2_def enrichWithMetadata_def split: sum.splits prod.splits)
  with nc have ncx: "x \<noteq> Inl cancelled_message" by blast
  from in_step_enrichItems[OF en ncx st1] obtain s01 where
    en0: "enrichItems (left_alone e) (length allItems) allItems [] 0 0 ?sb = (x, s01)"
    and st2: "in_step s1 s01" by blast
  from run False en en0 st2 show ?thesis
    by (auto simp: phase2_def enrichWithMetadata_def split: sum.splits prod.splits)
qed

lemma in_step_scrapeAll_try:
  assumes run: "scrapeAll_try e u opts s = (r, s')" and nc: "r \<noteq> Inl cancelled_message"
  shows "\<exists>s0'. scrapeAll_try (left_alone e) u opts s = (r, s0') \<and> tick s0' = tick s'"
proof -
  let ?src = "case opt_source opts of None \<Rightarrow> ''both'' | Some x \<Rightarrow> x"
  let ?sc = "\<lparr> timeRange = (case opt_timeRange opts of None \<Rightarrow> ''year'' | Some x \<Rightarrow> x),
               pageLimit = (case opt_pageLimit opts of None \<Rightarrow> 10 | Some x \<Rightarrow> x) \<rparr>"
  have st: "in_step (resetCancel s) (resetCancel s)" by (simp add: in_step_resetCancel)
  obtain h s1 where a: "phase1a e u ?src ?sc (resetCancel s) = (h, s1)"
    by (cases "phase1a e u ?src ?sc (resetCancel s)")
  show ?thesis
  proof (cases h)
    case (Inl thrown)
    with run a have r: "r = Inl thrown" "s' = s1" by (simp_all add: scrapeAll_try_def Let_def)
    with nc Inl have "h \<noteq> Inl cancelled_message" by simp
    from in_step_phase1a[OF a this st] Inl r show ?thesis
      by (auto simp: scrapeAll_try_def Let_def in_step_def)
  next
    case (Inr hist)
    then have "h \<noteq> Inl cancelled_message" by simp
    from in_step_phase1a[OF a this st] obtain s01 where
      a0: "phase1a (left_alone e) u ?src ?sc (resetCancel s) = (h, s01)"
      and st1: "in_step s1 s01" by blast
    obtain b s2 where pb: "phase1b e u ?src ?sc hist s1 = (b, s2)"
      by (cases "phase1b e u ?src ?sc hist s1")
    show ?thesis
    proof (cases b)
      case (Inl thrown)
      with run a Inr pb have r: "r = Inl thrown" "s' = s2"
        by (simp_all add: scrapeAll_try_def Let_def)
      with nc Inl have "b \<noteq> Inl cancelled_message" by simp
      from in_step_phase1b[OF pb this st1] Inl Inr a0 r show ?thesis
        by (auto simp: scrapeAll_try_def Let_def in_step_def)
    next
      case all: (Inr allItems)
      then have "b \<noteq> Inl cancelled_message" by simp
      from in_step_phase1b[OF pb this st1] obtain s02 where
        pb0: "phase1b (left_alone e) u ?src ?sc hist s01 = (b, s02)"
        and st2: "in_step s2 s02" by blast
      from run a Inr pb all have p2: "phase2 e ?src allItems s2 = (r, s')"
        by (simp add: scrapeAll_try_def Let_def)
      from in_step_phase2[OF p2 nc st2] Inr all a0 pb0 show ?thesis
        by (auto simp: scrapeAll_try_def Let_def in_step_def)
    qed
  qed
qed

lemma cancelled_message_includes: "String_includes cancelled_message ''cancelled''"
  by (simp add: cancelled_message_def)

text \<open>
  C4, with the conditions it needs. The suspensions of a run (its fetches and delays) are
  numbered from 0, and the run is isolated: nobody else calls \<open>resetCancel()\<close> while it
  is suspended. Let \<open>requestCancel()\<close> be called during a suspension that is not the
  last one the run would make if it were left alone. Then the body of \<open>scrapeAll\<close>
  throws, and what it throws is the cancellation error of a check, or else the error of
  a failing fetch that the run left alone meets as well. The \<open>catch\<close> block turns the
  error into the result that \<open>scrapeAll\<close> resolves to: the cancelled result when the
  message contains "cancelled", a failure result otherwise. So the result is never a
  success, and it is the cancelled result whenever the run left alone succeeds.

  The last suspension of a run left alone is its last detail fetch (or its last listing
  fetch when nothing is listed, or the fetch that fails); no check follows it.
\<close>

theorem scrapeAll_cancellation:
  assumes "isolated e" and "tick s = 0" and "cancelDuring e k"
    and "Suc k < tick (snd (scrapeAll (left_alone e) username opts s))"
  shows "\<exists>thrown.
       fst (scrapeAll_try e username opts s) = Inl thrown
     \<and> (thrown = ''Scraping cancelled by user''
          \<or> fst (scrapeAll_try (left_alone e) username opts s) = Inl thrown)
     \<and> fst (scrapeAll e username opts s)
         = (if String_includes thrown ''cancelled''
            then Cancelled ''Scraping was cancelled''
            else Failure thrown (''Scraping failed: '' @ thrown))
     \<and> \<not> is_Success (fst (scrapeAll e username opts s))
     \<and> (is_Success (fst (scrapeAll (left_alone e) username opts s))
          \<longrightarrow> fst (scrapeAll e username opts s) = Cancelled ''Scraping was cancelled'')"
proof -
  obtain x s' where t: "scrapeAll_try e username opts s = (x, s')"
    by (cases "scrapeAll_try e username opts s")
  have caught: "fst (scrapeAll e username opts s)
         = (if String_includes thrown ''cancelled''
            then Cancelled ''Scraping was cancelled''
            else Failure thrown (''Scraping failed: '' @ thrown))" if "x = Inl thrown" for thrown
    using t that by (simp add: scrapeAll_def)
  show ?thesis
  proof (cases "x = Inl cancelled_message")
    case True
    from caught[OF True] cancelled_message_includes
    have "fst (scrapeAll e username opts s) = Cancelled ''Scraping was cancelled''" by simp
    with t True show ?thesis
      by (intro exI[of _ cancelled_message]) (simp add: cancelled_message_def)
  next
    case False
    from in_step_scrapeAll_try[OF t False] obtain s0' where
      t0: "scrapeAll_try (left_alone e) username opts s = (x, s0')" and tk: "tick s0' = tick s'"
      by blast
    have "snd (scrapeAll (left_alone e) username opts s) = s0'"
      using t0 by (simp add: scrapeAll_def split: sum.splits)
    with assms(4) tk have "k < tick s' - 1" by simp
    with assms(3) have nq: "\<not> quiet e (tick s' - 1)" unfolding quiet_def by blast
    from scrapeAll_try_props[OF assms(1,2) t] nq obtain thrown where x: "x = Inl thrown"
      by (cases x) auto
    have fail: "\<not> is_Success (fst (scrapeAll (left_alone e) username opts s))"
      using t0 x by (simp add: scrapeAll_def)
    from caught[OF x] have ns: "\<not> is_Success (fst (scrapeAll e username opts s))" by simp
    from t t0 x caught[OF x] ns fail show ?thesis
      by (intro exI[of _ thrown]) simp
  qed
qed


lemma left_alone_quiet_account: "left_alone (quiet_account c) = quiet_account (\<lambda>n. False)"
  by (simp add: left_alone_def quiet_account_def)

lemma isolated_quiet_account: "isolated (quiet_account c)"
  by (simp add: isolated_def quiet_account_def)

text \<open>An instance: a history-only run over the small account; \<open>requestCancel()\<close> is
  called during suspension 2, the delay before the enrichment. Left alone the run makes
  four suspensions and succeeds. The check before the detail fetch finds the flag set,
  and the run resolves to the cancelled result.\<close>

theorem scrapeAll_cancellation_witness:
  "isolated (quiet_account (\<lambda>n. n = 2))
   \<and> tick start = 0
   \<and> cancelDuring (quiet_account (\<lambda>n. n = 2)) 2
   \<and> tick (snd (scrapeAll (left_alone (quiet_account (\<lambda>n. n = 2))) ''u'' history_only start)) = 4
   \<and> is_Success (fst (scrapeAll (left_alone (quiet_account (\<lambda>n. n = 2))) ''u'' history_only start))
   \<and> fst (scrapeAll_try (quiet_account (\<lambda>n. n = 2)) ''u'' history_only start)
       = Inl ''Scraping cancelled by user''
   \<and> fst (scrapeAll (quiet_account (\<lambda>n. n = 2)) ''u'' history_only start)
       = Cancelled ''Scraping was cancelled''"
proof -
  let ?e = "quiet_account (\<lambda>n. n = 2)"
  let ?alone = "scrapeAll (left_alone ?e) ''u'' history_only start"
  have i: "isolated ?e" by (rule isolated_quiet_account)
  have t0: "tick start = 0" by (simp add: start_def)
  have ck: "cancelDuring ?e 2" by (simp add: cancelDuring_def quiet_account_def)
  have n: "tick (snd ?alone) = 4" and ok: "is_Success (fst ?alone)"
    by (simp_all add: left_alone_quiet_account run_history_only)
  have lt: "Suc 2 < tick (snd ?alone)" unfolding n by simp
  from ok have no: "fst (scrapeAll_try (left_alone ?e) ''u'' history_only start) \<noteq> Inl thrown"
    for thrown
    by (auto simp: scrapeAll_def split: prod.splits sum.splits if_splits)
  from scrapeAll_cancellation[OF i t0 ck lt] ok no
  have "fst (scrapeAll_try ?e ''u'' history_only start) = Inl ''Scraping cancelled by user''"
    and "fst (scrapeAll ?e ''u'' history_only start) = Cancelled ''Scraping was cancelled''"
    by blast+
  with i t0 ck n ok show ?thesis by (simp only: simp_thms)
qed

text \<open>Why the run has to be isolated. In a history-only run over the small account
  \<open>requestCancel()\<close> is called during suspension 1 and \<open>resetCancel()\<close> during suspension 2:
  the check that follows finds the flag clear again, and the run succeeds.\<close>

lemma restarted_run_succeeds:
  "cancelDuring restarted_account 1
   \<and> \<not> isolated restarted_account
   \<and> tick (snd (scrapeAll (left_alone restarted_account) ''u'' history_only start)) = 4
   \<and> is_Success (fst (scrapeAll restarted_account ''u'' history_only start))"
proof -
  have a: "cancelDuring restarted_account 1"
    by (simp add: cancelDuring_def restarted_account_def)
  have "ResetCancel \<in> set (flagCalls restarted_account 2)"
    by (simp add: restarted_account_def)
  then have b: "\<not> isolated restarted_account" unfolding isolated_def by blast
  have "left_alone restarted_account = quiet_account (\<lambda>n. False)"
    by (simp add: left_alone_def restarted_account_def quiet_account_def)
  then have c: "tick (snd (scrapeAll (left_alone restarted_account) ''u'' history_only start)) = 4"
    by (simp add: run_history_only)
  from a b c run_restarted show ?thesis by (simp only: simp_thms)
qed

text \<open>Why the result can be a failure. In a run with the default options over the small
  account \<open>requestCancel()\<close> is called during suspension 2, the delay between the history
  and the bookmarks. The next suspension is the fetch of the bookmarks' page count, with
  no check before it; that fetch fails, and the run resolves to a failure result, as it
  does when left alone.\<close>

lemma run_failing_alone:
  "tick (snd (scrapeAll (left_alone failing_account) ''u'' default_options start)) = 4"
  by code_simp

lemma failing_run_fails:
  "isolated failing_account
   \<and> cancelDuring failing_account 2
   \<and> tick (snd (scrapeAll (left_alone failing_account) ''u'' default_options start)) = 4
   \<and> fst (scrapeAll failing_account ''u'' default_options start)
       = Failure ''Failed to fetch bookmarks: timeout''
           ''Scraping failed: Failed to fetch bookmarks: timeout''"
proof -
  have a: "isolated failing_account"
    by (simp add: isolated_def failing_account_def quiet_account_def)
  have b: "cancelDuring failing_account 2"
    by (simp add: cancelDuring_def failing_account_def quiet_account_def)
  from a b run_failing_alone run_failing show ?thesis by (simp only: simp_thms)
qed

end
